theory Spec2Isabelle
  imports Main "HOL-Library.Multiset"
begin

section \<open>Data model (types.ts)\<close>

text \<open>
  A JavaScript string is modelled as \<^typ>\<open>string\<close>, the list of its UTF-8 bytes: the
  server only tests strings for emptiness and equality, concatenates them and trims
  them. \<open>Date.now()\<close> yields an integer number of milliseconds, hence \<^typ>\<open>int\<close>.
  The optional field \<open>deliveredAt?\<close> is an option.
\<close>

datatype Role = User | Ai | System

datatype MessageBody = Text string | Tool_use string | Tool_result string

record Message =
  id_msg :: string
  to :: string
  sessionId :: string
  timestamp :: int
  delivered :: bool
  deliveredAt :: "int option"
  role :: Role
  message :: MessageBody

record SessionItem =
  id_sess :: string
  userId :: string
  title :: string
  createdAt :: int
  updatedAt :: int

text \<open>The payloads of \<open>ServerToClientEvents\<close>, one constructor per event name.\<close>

datatype notification =
    Ai_started string string
  | Ai_chunk string string string
  | Ai_complete string string string
  | Ai_tool_call string string
  | Ai_tool_result string string
  | Session_list "SessionItem list"
  | Session_messages string "Message list"

text \<open>
  What the server does to the outside, in the order it does it: \<open>Emit sid n\<close> is
  \<open>io.to(sid).emit\<close> or \<open>socket.emit\<close> on the socket \<open>sid\<close>, \<open>Write_messages\<close> a call
  of \<open>writeStore\<close>, \<open>Write_sessions\<close> a call of \<open>writeSessions\<close>, \<open>Console_error\<close> the
  \<open>console.error\<close> of the orchestrator's catch block.
\<close>

datatype effect =
    Emit string notification
  | Write_messages
  | Write_sessions
  | Console_error

section \<open>The state of the server process\<close>

text \<open>
  \<open>msg_file\<close> and \<open>sess_file\<close> are the parsed contents of \<open>data/messages.json\<close> and
  \<open>data/sessions.json\<close> (\<open>None\<close>: the file does not exist), \<open>onlineUsers\<close> is the
  global map of that name, \<open>socket_data\<close> gives \<open>socket.data.userId\<close> of every
  connection by its socket id. \<open>Date.now()\<close> and \<open>crypto.randomUUID()\<close> are inputs
  from the environment: the \<open>n\<close>-th call returns \<open>clock n\<close>, respectively \<open>uuids n\<close>,
  for arbitrary functions \<open>clock\<close> and \<open>uuids\<close>.
\<close>

record world =
  msg_file :: "Message list option"
  sess_file :: "SessionItem list option"
  onlineUsers :: "string \<rightharpoonup> string"
  socket_data :: "string \<rightharpoonup> string"
  trace :: "effect list"
  clock :: "nat \<Rightarrow> int"
  clock_reads :: nat
  uuids :: "nat \<Rightarrow> string"
  uuid_draws :: nat

definition Date_now :: "world \<Rightarrow> int \<times> world" where
  "Date_now w = (clock w (clock_reads w), w\<lparr>clock_reads := Suc (clock_reads w)\<rparr>)"

definition randomUUID :: "world \<Rightarrow> string \<times> world" where
  "randomUUID w = (uuids w (uuid_draws w), w\<lparr>uuid_draws := Suc (uuid_draws w)\<rparr>)"

definition emit :: "string \<Rightarrow> notification \<Rightarrow> world \<Rightarrow> world" where
  "emit sid n w = w\<lparr>trace := trace w @ [Emit sid n]\<rparr>"

section \<open>The file-based store (server.ts, lines 21-95)\<close>

text \<open>The content a file is read as: \<open>ensureStore\<close> creates a missing file holding
  the empty list. File operations are taken to succeed, and \<open>JSON.parse\<close> to return
  what \<open>JSON.stringify\<close> was given. The trace records the calls of \<open>writeStore\<close> and
  \<open>writeSessions\<close>; the creation of a missing file by \<open>ensureStore\<close> shows in
  \<open>msg_file\<close> and \<open>sess_file\<close> only.\<close>

definition stored_messages :: "world \<Rightarrow> Message list" where
  "stored_messages w = (case msg_file w of None \<Rightarrow> [] | Some ms \<Rightarrow> ms)"

definition stored_sessions :: "world \<Rightarrow> SessionItem list" where
  "stored_sessions w = (case sess_file w of None \<Rightarrow> [] | Some ss \<Rightarrow> ss)"

definition ensureStore :: "world \<Rightarrow> world" where
  "ensureStore w =
     w\<lparr>msg_file := Some (stored_messages w), sess_file := Some (stored_sessions w)\<rparr>"

definition readStore :: "world \<Rightarrow> Message list \<times> world" where
  "readStore w = (let w1 = ensureStore w in (stored_messages w1, w1))"

definition writeStore :: "Message list \<Rightarrow> world \<Rightarrow> world" where
  "writeStore data w = w\<lparr>msg_file := Some data, trace := trace w @ [Write_messages]\<rparr>"

definition readSessions :: "world \<Rightarrow> SessionItem list \<times> world" where
  "readSessions w = (let w1 = ensureStore w in (stored_sessions w1, w1))"

definition writeSessions :: "SessionItem list \<Rightarrow> world \<Rightarrow> world" where
  "writeSessions data w = w\<lparr>sess_file := Some data, trace := trace w @ [Write_sessions]\<rparr>"

text \<open>\<open>Array.prototype.sort\<close> is stable, and so is \<^const>\<open>sort_key\<close>; the comparator
  \<open>b.updatedAt - a.updatedAt\<close> sorts descending.\<close>

definition getSessionsForUser :: "string \<Rightarrow> world \<Rightarrow> SessionItem list \<times> world" where
  "getSessionsForUser uid w =
     (let (data, w1) = readSessions w
      in (sort_key (\<lambda>s. - updatedAt s) (filter (\<lambda>s. userId s = uid) data), w1))"

text \<open>\<open>Array.prototype.findIndex\<close>: the first index whose element satisfies the
  predicate, \<open>-1\<close> when there is none.\<close>

fun findIndex :: "('a \<Rightarrow> bool) \<Rightarrow> 'a list \<Rightarrow> int" where
  "findIndex P [] = - 1"
| "findIndex P (x # xs) =
     (if P x then 0 else (let i = findIndex P xs in if i \<ge> 0 then i + 1 else - 1))"

definition upsertSession :: "SessionItem \<Rightarrow> world \<Rightarrow> world" where
  "upsertSession item w =
     (let (data, w1) = readSessions w;
          idx = findIndex (\<lambda>s. id_sess s = id_sess item) data
      in writeSessions (if idx \<ge> 0 then data[nat idx := item] else data @ [item]) w1)"

definition addMessage :: "Message \<Rightarrow> world \<Rightarrow> world" where
  "addMessage msg w = (let (data, w1) = readStore w in writeStore (data @ [msg]) w1)"

text \<open>The callback of \<open>map\<close> sets \<open>changed\<close> exactly when some record takes its first
  branch.\<close>

definition to_mark :: "string list \<Rightarrow> Message \<Rightarrow> bool" where
  "to_mark ids m = (id_msg m \<in> set ids \<and> \<not> delivered m)"

definition markMessagesDelivered :: "string list \<Rightarrow> world \<Rightarrow> world" where
  "markMessagesDelivered ids w =
     (if ids = [] then w
      else
        (let (data, w1) = readStore w;
             (now, w2) = Date_now w1;
             changed = list_ex (to_mark ids) data;
             data' = map (\<lambda>m. if to_mark ids m
                                then m\<lparr>delivered := True, deliveredAt := Some now\<rparr>
                                else m) data
         in if changed then writeStore data' w2 else w2))"

section \<open>The gateway's handlers (server.ts, lines 287-361)\<close>

text \<open>
  \<open>String.prototype.trim\<close> removes the ECMAScript white space and line terminators
  from both ends: the code points U+0009 to U+000D, U+0020, U+00A0, U+1680, U+2000 to
  U+200A, U+2028, U+2029, U+202F, U+205F, U+3000 and U+FEFF, here in UTF-8.
\<close>

definition js_whitespace :: "string list" where
  "js_whitespace =
     [[CHR 0x09], [CHR 0x0A], [CHR 0x0B], [CHR 0x0C], [CHR 0x0D], [CHR 0x20],
      [CHR 0xC2, CHR 0xA0],
      [CHR 0xE1, CHR 0x9A, CHR 0x80],
      [CHR 0xE2, CHR 0x80, CHR 0x80], [CHR 0xE2, CHR 0x80, CHR 0x81],
      [CHR 0xE2, CHR 0x80, CHR 0x82], [CHR 0xE2, CHR 0x80, CHR 0x83],
      [CHR 0xE2, CHR 0x80, CHR 0x84], [CHR 0xE2, CHR 0x80, CHR 0x85],
      [CHR 0xE2, CHR 0x80, CHR 0x86], [CHR 0xE2, CHR 0x80, CHR 0x87],
      [CHR 0xE2, CHR 0x80, CHR 0x88], [CHR 0xE2, CHR 0x80, CHR 0x89],
      [CHR 0xE2, CHR 0x80, CHR 0x8A],
      [CHR 0xE2, CHR 0x80, CHR 0xA8], [CHR 0xE2, CHR 0x80, CHR 0xA9],
      [CHR 0xE2, CHR 0x80, CHR 0xAF],
      [CHR 0xE2, CHR 0x81, CHR 0x9F],
      [CHR 0xE3, CHR 0x80, CHR 0x80],
      [CHR 0xEF, CHR 0xBB, CHR 0xBF]]"

fun strip_leading :: "string list \<Rightarrow> string \<Rightarrow> string" where
  "strip_leading ps [] = []"
| "strip_leading ps (c # cs) =
     (case find (\<lambda>p. p \<noteq> [] \<and> take (length p) (c # cs) = p) ps of
        None \<Rightarrow> c # cs
      | Some p \<Rightarrow> strip_leading ps (drop (length p - 1) cs))"

definition js_trim :: "string \<Rightarrow> string" where
  "js_trim s = rev (strip_leading (map rev js_whitespace) (rev (strip_leading js_whitespace s)))"

text \<open>The placeholder title of \<open>session_create\<close>, three CJK characters in UTF-8.\<close>

definition default_title :: string where
  "default_title =
     [CHR 0xE6, CHR 0x96, CHR 0xB0, CHR 0xE4, CHR 0xBC, CHR 0x9A, CHR 0xE8, CHR 0xAF, CHR 0x9D]"

text \<open>
  A handler takes the socket id of its connection. A guard \<open>if (!x) return\<close> on a
  string drops the intent when \<open>x\<close> is undefined or empty.
\<close>

definition register :: "string \<Rightarrow> string \<Rightarrow> world \<Rightarrow> world" where
  "register sock uid w =
     (if uid = [] then w
      else
        (let w1 = w\<lparr>socket_data := (socket_data w)(sock \<mapsto> uid),
                     onlineUsers := (onlineUsers w)(uid \<mapsto> sock)\<rparr>;
             (sessions, w2) = getSessionsForUser uid w1
         in emit sock (Session_list sessions) w2))"

definition session_create :: "string \<Rightarrow> string \<Rightarrow> string option \<Rightarrow> world \<Rightarrow> world" where
  "session_create sock sessId ttl w =
     (case socket_data w sock of
        None \<Rightarrow> w
      | Some uid \<Rightarrow>
          if uid = [] \<or> sessId = [] then w
          else
            (let (now, w1) = Date_now w;
                 (sessions, w2) = getSessionsForUser uid w1;
                 existing = find (\<lambda>s. id_sess s = sessId) sessions;
                 item = \<lparr>id_sess = sessId, userId = uid,
                         title =
                           (case ttl of
                              Some t \<Rightarrow>
                                if t \<noteq> [] \<and> js_trim t \<noteq> [] then t
                                else (case existing of
                                        None \<Rightarrow> default_title
                                      | Some e \<Rightarrow> if title e \<noteq> [] then title e else default_title)
                            | None \<Rightarrow>
                                (case existing of
                                   None \<Rightarrow> default_title
                                 | Some e \<Rightarrow> if title e \<noteq> [] then title e else default_title)),
                         createdAt = (case existing of None \<Rightarrow> now | Some e \<Rightarrow> createdAt e),
                         updatedAt = now\<rparr>;
                 w3 = upsertSession item w2;
                 (sessions', w4) = getSessionsForUser uid w3
             in emit sock (Session_list sessions') w4))"

definition session_open :: "string \<Rightarrow> string \<Rightarrow> world \<Rightarrow> world" where
  "session_open sock sessId w =
     (case socket_data w sock of
        None \<Rightarrow> w
      | Some uid \<Rightarrow>
          if uid = [] \<or> sessId = [] then w
          else
            (let (data, w1) = readStore w;
                 msgs = sort_key timestamp
                          (filter (\<lambda>m. to m = uid \<and> sessionId m = sessId) data)
             in emit sock (Session_messages sessId msgs) w1))"

definition disconnect :: "string \<Rightarrow> world \<Rightarrow> world" where
  "disconnect sock w =
     (case socket_data w sock of
        None \<Rightarrow> w
      | Some uid \<Rightarrow>
          if uid = [] then w
          else if onlineUsers w uid = Some sock
               then w\<lparr>onlineUsers := (onlineUsers w)(uid := None)\<rparr>
               else w)"

section \<open>The orchestrator (server.ts, lines 180-285)\<close>

text \<open>
  The local state of one call of \<open>startAIStream\<close>: its parameters and its variables
  \<open>messageId\<close>, \<open>textSoFar\<close> and \<open>done\<close>. \<open>seen\<close> is a history variable: the results
  of the call's \<open>onlineUsers.get(userId)\<close>, in the order they were made. Nothing reads
  it.
\<close>

record invocation =
  messageId :: string
  inv_userId :: string
  inv_sessionId :: string
  inv_input :: string
  textSoFar :: string
  done_flag :: bool
  seen :: "string option list"

text \<open>\<open>if (sid)\<close> on the result of \<open>onlineUsers.get\<close>.\<close>

definition present :: "string option \<Rightarrow> bool" where
  "present r = (case r of None \<Rightarrow> False | Some sid \<Rightarrow> sid \<noteq> [])"

text \<open>The part of \<open>startAIStream\<close> that runs before its first \<open>await\<close> (lines 182-192).\<close>

definition startAIStream_begin ::
  "string \<Rightarrow> string \<Rightarrow> string \<Rightarrow> world \<Rightarrow> invocation \<times> world" where
  "startAIStream_begin uid sessId input w =
     (let (mid, w1) = randomUUID w;
          targetSocketId = onlineUsers w1 uid
      in (\<lparr>messageId = mid, inv_userId = uid, inv_sessionId = sessId, inv_input = input,
           textSoFar = [], done_flag = False, seen = [targetSocketId]\<rparr>,
          (case targetSocketId of
             None \<Rightarrow> w1
           | Some sid \<Rightarrow> if sid \<noteq> [] then emit sid (Ai_started mid sessId) w1 else w1)))"

text \<open>The events of \<open>response.fullStream\<close>; \<open>Ev_other\<close> is any type the loop has no
  branch for.\<close>

datatype stream_event =
    Ev_text_delta "string option"
  | Ev_tool_call string
  | Ev_tool_result string
  | Ev_finish
  | Ev_other

text \<open>One iteration of the \<open>for await\<close> loop (lines 199-248).\<close>

fun on_event :: "invocation \<Rightarrow> stream_event \<Rightarrow> world \<Rightarrow> invocation \<times> world" where
  "on_event st (Ev_text_delta txt) w =
     (let delta = (case txt of None \<Rightarrow> [] | Some d \<Rightarrow> d)
      in if \<not> done_flag st \<and> delta \<noteq> []
         then
           (let sid = onlineUsers w (inv_userId st)
            in (st\<lparr>textSoFar := textSoFar st @ delta, seen := seen st @ [sid]\<rparr>,
                (case sid of
                   None \<Rightarrow> w
                 | Some s \<Rightarrow>
                     if s \<noteq> []
                     then emit s (Ai_chunk (messageId st) (inv_sessionId st) delta) w
                     else w)))
         else (st, w))"
| "on_event st (Ev_tool_call toolName) w =
     (let (u, w1) = randomUUID w;
          (t, w2) = Date_now w1;
          toolMsg = \<lparr>id_msg = u, to = inv_userId st, sessionId = inv_sessionId st,
                    timestamp = t, delivered = False, deliveredAt = None, role = System,
                    message = Tool_use toolName\<rparr>;
          w3 = addMessage toolMsg w2;
          sid = onlineUsers w3 (inv_userId st)
      in (st\<lparr>seen := seen st @ [sid]\<rparr>,
          (case sid of
             None \<Rightarrow> w3
           | Some s \<Rightarrow>
               if s \<noteq> []
               then markMessagesDelivered [id_msg toolMsg]
                      (emit s (Ai_tool_call (inv_sessionId st) toolName) w3)
               else w3)))"
| "on_event st (Ev_tool_result toolName) w =
     (let (u, w1) = randomUUID w;
          (t, w2) = Date_now w1;
          toolResMsg = \<lparr>id_msg = u, to = inv_userId st, sessionId = inv_sessionId st,
                       timestamp = t, delivered = False, deliveredAt = None, role = System,
                       message = Tool_result toolName\<rparr>;
          w3 = addMessage toolResMsg w2;
          sid = onlineUsers w3 (inv_userId st)
      in (st\<lparr>seen := seen st @ [sid]\<rparr>,
          (case sid of
             None \<Rightarrow> w3
           | Some s \<Rightarrow>
               if s \<noteq> []
               then markMessagesDelivered [id_msg toolResMsg]
                      (emit s (Ai_tool_result (inv_sessionId st) toolName) w3)
               else w3)))"
| "on_event st Ev_finish w = (st, w)"
| "on_event st Ev_other w = (st, w)"

text \<open>Lines 252-276, once \<open>response.text\<close> has resolved to \<open>finalText\<close>.\<close>

definition finalize :: "invocation \<Rightarrow> string \<Rightarrow> world \<Rightarrow> invocation \<times> world" where
  "finalize st finalText w =
     (let txt = (if finalText \<noteq> [] then finalText else textSoFar st);
          (t, w1) = Date_now w;
          finalMsg = \<lparr>id_msg = messageId st, to = inv_userId st,
                     sessionId = inv_sessionId st, timestamp = t, delivered = False,
                     deliveredAt = None, role = Ai, message = Text txt\<rparr>;
          w2 = addMessage finalMsg w1;
          sid = onlineUsers w2 (inv_userId st)
      in (st\<lparr>textSoFar := txt, done_flag := True, seen := seen st @ [sid]\<rparr>,
          (case sid of
             None \<Rightarrow> w2
           | Some s \<Rightarrow>
               if s \<noteq> []
               then markMessagesDelivered [messageId st]
                      (emit s (Ai_complete (messageId st) (inv_sessionId st) txt) w2)
               else w2)))"

text \<open>The catch block (lines 277-281).\<close>

definition on_error :: "invocation \<Rightarrow> world \<Rightarrow> invocation \<times> world" where
  "on_error st w = (st\<lparr>done_flag := True\<rparr>, w\<lparr>trace := trace w @ [Console_error]\<rparr>)"

text \<open>
  \<open>bump_session\<close> is the tail of the \<open>ai_send\<close> handler (lines 346-350), which runs
  after \<open>startAIStream\<close> has returned its promise.
\<close>

definition bump_session :: "string \<Rightarrow> string \<Rightarrow> world \<Rightarrow> world" where
  "bump_session from sessId w =
     (let (sessions, w1) = getSessionsForUser from w
      in (case find (\<lambda>s. id_sess s = sessId) sessions of
            None \<Rightarrow> w1
          | Some target \<Rightarrow>
              (let (now, w2) = Date_now w1 in upsertSession (target\<lparr>updatedAt := now\<rparr>) w2)))"

text \<open>
  The \<open>ai_send\<close> handler (lines 329-351). It returns the invocation it has started,
  suspended at its first \<open>await\<close>, and the state it leaves.
\<close>

definition ai_send :: "string \<Rightarrow> string \<Rightarrow> string \<Rightarrow> world \<Rightarrow> invocation option \<times> world" where
  "ai_send sock sessId txt w =
     (case socket_data w sock of
        None \<Rightarrow> (None, w)
      | Some from \<Rightarrow>
          if from = [] \<or> txt = [] \<or> sessId = [] then (None, w)
          else
            (let (u, w1) = randomUUID w;
                 (t1, w2) = Date_now w1;
                 (t2, w3) = Date_now w2;
                 userMsg = \<lparr>id_msg = u, to = from, sessionId = sessId, timestamp = t1,
                            delivered = True, deliveredAt = Some t2, role = User,
                            message = Text txt\<rparr>;
                 w4 = addMessage userMsg w3;
                 (st, w5) = startAIStream_begin from sessId txt w4
             in (Some st, bump_session from sessId w5)))"

text \<open>
  While a call of \<open>startAIStream\<close> is suspended at an \<open>await\<close>, anything else in the
  process may run: the five handlers of the gateway on any connection (a send among
  them, which starts another invocation), the tail of the handler that started this
  call, and the steps of other invocations. A step of another invocation is one
  iteration of its loop, its finish or its catch block, run on that invocation's local
  state, which is arbitrary here.
\<close>

datatype gateway_event =
    Register string
  | Session_create string "string option"
  | Session_open string
  | Ai_send string string
  | Disconnect

datatype resumption = Feed_yields stream_event | Text_yields string | Engine_throws

datatype interleaved =
    On_socket string gateway_event
  | Bump_session string string
  | Elsewhere invocation resumption

fun run_interleaved :: "interleaved \<Rightarrow> world \<Rightarrow> world" where
  "run_interleaved (On_socket sock (Register uid)) w = register sock uid w"
| "run_interleaved (On_socket sock (Session_create sessId ttl)) w = session_create sock sessId ttl w"
| "run_interleaved (On_socket sock (Session_open sessId)) w = session_open sock sessId w"
| "run_interleaved (On_socket sock (Ai_send sessId txt)) w = snd (ai_send sock sessId txt w)"
| "run_interleaved (On_socket sock Disconnect) w = disconnect sock w"
| "run_interleaved (Bump_session from sessId) w = bump_session from sessId w"
| "run_interleaved (Elsewhere st (Feed_yields ev)) w = snd (on_event st ev w)"
| "run_interleaved (Elsewhere st (Text_yields finalText)) w = snd (finalize st finalText w)"
| "run_interleaved (Elsewhere st Engine_throws) w = snd (on_error st w)"

fun interleave :: "interleaved list \<Rightarrow> world \<Rightarrow> world" where
  "interleave [] w = w"
| "interleave (x # xs) w = interleave xs (run_interleaved x w)"

text \<open>
  The generation engine is a black box. One run of it is given by what each \<open>await\<close>
  of the orchestrator yields, together with what ran while the orchestrator was
  suspended there: \<open>agent.streamText\<close> rejects or resolves; the feed yields its events
  and then throws or ends; \<open>response.text\<close> rejects or resolves to a string.
\<close>

datatype text_result = Text_rejects | Text_resolves string

datatype feed_end = Feed_throws | Feed_done "interleaved list" text_result

datatype response =
    StreamText_rejects
  | StreamText_resolves "(interleaved list \<times> stream_event) list" "interleaved list" feed_end

text \<open>
  A run of \<open>startAIStream\<close> returns the local state and the state of the process it
  ends in, and its journal: for every step the invocation itself takes (its start,
  every iteration of its loop, its finish or its catch block), which step it is, the
  state of the process the step starts in and the state it leaves. What runs between
  two steps is not in the journal.
\<close>

datatype own_step = At_start | At_event stream_event | At_finish | At_catch

type_synonym journal = "(own_step \<times> world \<times> world) list"

fun consume_feed ::
  "invocation \<Rightarrow> (interleaved list \<times> stream_event) list \<Rightarrow> world
     \<Rightarrow> invocation \<times> world \<times> journal" where
  "consume_feed st [] w = (st, w, [])"
| "consume_feed st ((during, ev) # rest) w =
     (let v = interleave during w;
          (st1, w1) = on_event st ev v;
          (st2, w2, j) = consume_feed st1 rest w1
      in (st2, w2, (At_event ev, v, w1) # j))"

fun startAIStream_resume ::
  "invocation \<Rightarrow> interleaved list \<Rightarrow> response \<Rightarrow> world \<Rightarrow> invocation \<times> world \<times> journal" where
  "startAIStream_resume st during StreamText_rejects w =
     (let v = interleave during w;
          (st1, w1) = on_error st v
      in (st1, w1, [(At_catch, v, w1)]))"
| "startAIStream_resume st during (StreamText_resolves evs during1 Feed_throws) w =
     (let (st1, w1, j) = consume_feed st evs (interleave during w);
          v = interleave during1 w1;
          (st2, w2) = on_error st1 v
      in (st2, w2, j @ [(At_catch, v, w2)]))"
| "startAIStream_resume st during
       (StreamText_resolves evs during1 (Feed_done during2 Text_rejects)) w =
     (let (st1, w1, j) = consume_feed st evs (interleave during w);
          v = interleave during2 (interleave during1 w1);
          (st2, w2) = on_error st1 v
      in (st2, w2, j @ [(At_catch, v, w2)]))"
| "startAIStream_resume st during
       (StreamText_resolves evs during1 (Feed_done during2 (Text_resolves finalText))) w =
     (let (st1, w1, j) = consume_feed st evs (interleave during w);
          v = interleave during2 (interleave during1 w1);
          (st2, w2) = finalize st1 finalText v
      in (st2, w2, j @ [(At_finish, v, w2)]))"

definition startAIStream ::
  "string \<Rightarrow> string \<Rightarrow> string \<Rightarrow> interleaved list \<Rightarrow> response \<Rightarrow> world
     \<Rightarrow> invocation \<times> world \<times> journal" where
  "startAIStream uid sessId input during resp w =
     (let (st, w1) = startAIStream_begin uid sessId input w;
          (st2, w2, j) = startAIStream_resume st during resp w1
      in (st2, w2, (At_start, w, w1) # j))"

definition run_state :: "invocation \<times> world \<times> journal \<Rightarrow> invocation" where
  "run_state r = fst r"

definition run_world :: "invocation \<times> world \<times> journal \<Rightarrow> world" where
  "run_world r = fst (snd r)"

definition run_journal :: "invocation \<times> world \<times> journal \<Rightarrow> journal" where
  "run_journal r = snd (snd r)"

section \<open>Notions used in the statements\<close>

text \<open>Sequences of the two store operations that change the message log.\<close>

datatype store_op = AddMessage Message | MarkMessagesDelivered "string list"

fun apply_store_op :: "store_op \<Rightarrow> world \<Rightarrow> world" where
  "apply_store_op (AddMessage m) w = addMessage m w"
| "apply_store_op (MarkMessagesDelivered ids) w = markMessagesDelivered ids w"

fun run_store_ops :: "store_op list \<Rightarrow> world \<Rightarrow> world" where
  "run_store_ops [] w = w"
| "run_store_ops (x # xs) w = run_store_ops xs (apply_store_op x w)"

text \<open>What \<open>markMessagesDelivered\<close> does to one record when the clock shows \<open>now\<close>.\<close>

definition mark_record :: "string list \<Rightarrow> int \<Rightarrow> Message \<Rightarrow> Message" where
  "mark_record ids now m =
     (if to_mark ids m then m\<lparr>delivered := True, deliveredAt := Some now\<rparr> else m)"

text \<open>A later version of a record differs from an earlier one at most in
  \<open>delivered\<close> and \<open>deliveredAt\<close>, and is delivered if the earlier one was.\<close>

definition same_but_delivery :: "Message \<Rightarrow> Message \<Rightarrow> bool" where
  "same_but_delivery m m' =
     (m'\<lparr>delivered := delivered m, deliveredAt := deliveredAt m\<rparr> = m
      \<and> (delivered m \<longrightarrow> delivered m'))"

definition log_evolves :: "Message list \<Rightarrow> Message list \<Rightarrow> bool" where
  "log_evolves old new =
     (length old \<le> length new \<and> (\<forall>i < length old. same_but_delivery (old ! i) (new ! i)))"

text \<open>The notifications of the orchestrator, and its completion notification.\<close>

fun is_ai_notification :: "effect \<Rightarrow> bool" where
  "is_ai_notification (Emit sid (Ai_started i s)) = True"
| "is_ai_notification (Emit sid (Ai_chunk i s d)) = True"
| "is_ai_notification (Emit sid (Ai_complete i s t)) = True"
| "is_ai_notification (Emit sid (Ai_tool_call s n)) = True"
| "is_ai_notification (Emit sid (Ai_tool_result s n)) = True"
| "is_ai_notification e = False"

fun is_complete :: "effect \<Rightarrow> bool" where
  "is_complete (Emit sid (Ai_complete i s t)) = True"
| "is_complete e = False"

text \<open>What a run does itself: the effects its own steps add to the trace, and the
  records its own steps add to the log, as each step leaves them.\<close>

definition own_effects :: "journal \<Rightarrow> effect list" where
  "own_effects j = concat (map (\<lambda>(s, v, v'). drop (length (trace v)) (trace v')) j)"

definition own_records :: "journal \<Rightarrow> Message list" where
  "own_records j =
     concat (map (\<lambda>(s, v, v'). drop (length (stored_messages v)) (stored_messages v')) j)"

text \<open>The steps at which the orchestrator looks the user up in the presence
  registry: its start, a non-empty text delta, a tool call, a tool result, and its
  finish.\<close>

fun looks_up :: "own_step \<Rightarrow> bool" where
  "looks_up At_start = True"
| "looks_up (At_event (Ev_text_delta (Some d))) = (d \<noteq> [])"
| "looks_up (At_event (Ev_tool_call n)) = True"
| "looks_up (At_event (Ev_tool_result n)) = True"
| "looks_up At_finish = True"
| "looks_up s = False"

text \<open>
  What the specification lets a step do to the outside, given the presence entry \<open>p\<close>
  of the user in the state the step starts in, the artifact id, the session and the
  final text of the run. Start: \<open>started\<close> if present. Text delta: \<open>chunk\<close> if
  present. Tool call, tool result: the record is persisted; if present the
  notification is emitted and the record marked delivered. Finish event: nothing.
  Finish: the final record is persisted; if present \<open>complete\<close> is emitted and the
  record marked delivered. Failure: the error is logged, and nothing else.
\<close>

definition notify :: "string option \<Rightarrow> notification \<Rightarrow> effect list" where
  "notify p n = (case p of None \<Rightarrow> [] | Some sid \<Rightarrow> if sid \<noteq> [] then [Emit sid n] else [])"

definition persist_notify :: "string option \<Rightarrow> notification \<Rightarrow> effect list" where
  "persist_notify p n =
     Write_messages #
       (case p of
          None \<Rightarrow> []
        | Some sid \<Rightarrow> if sid \<noteq> [] then [Emit sid n, Write_messages] else [])"

fun specified_effects ::
  "string \<Rightarrow> string \<Rightarrow> string \<Rightarrow> own_step \<Rightarrow> string option \<Rightarrow> effect list" where
  "specified_effects mid sess ft At_start p = notify p (Ai_started mid sess)"
| "specified_effects mid sess ft (At_event (Ev_text_delta (Some d))) p =
     (if d \<noteq> [] then notify p (Ai_chunk mid sess d) else [])"
| "specified_effects mid sess ft (At_event (Ev_text_delta None)) p = []"
| "specified_effects mid sess ft (At_event (Ev_tool_call n)) p =
     persist_notify p (Ai_tool_call sess n)"
| "specified_effects mid sess ft (At_event (Ev_tool_result n)) p =
     persist_notify p (Ai_tool_result sess n)"
| "specified_effects mid sess ft (At_event Ev_finish) p = []"
| "specified_effects mid sess ft (At_event Ev_other) p = []"
| "specified_effects mid sess ft At_finish p = persist_notify p (Ai_complete mid sess ft)"
| "specified_effects mid sess ft At_catch p = [Console_error]"

text \<open>What a run of the engine asks the orchestrator to persist, in the words of the
  specification: a \<open>tool_use\<close> record for every tool call and a \<open>tool_result\<close> record
  for every tool result of the feed, both with role \<open>system\<close>, and, when the final text
  resolves, one \<open>ai\<close> text record holding it, or the concatenated deltas when it is
  empty.\<close>

fun tool_body :: "stream_event \<Rightarrow> MessageBody list" where
  "tool_body (Ev_tool_call n) = [Tool_use n]"
| "tool_body (Ev_tool_result n) = [Tool_result n]"
| "tool_body e = []"

definition tool_bodies :: "(interleaved list \<times> stream_event) list \<Rightarrow> MessageBody list" where
  "tool_bodies evs = concat (map (\<lambda>x. tool_body (snd x)) evs)"

fun delta_of :: "stream_event \<Rightarrow> string" where
  "delta_of (Ev_text_delta (Some d)) = d"
| "delta_of e = []"

definition deltas :: "(interleaved list \<times> stream_event) list \<Rightarrow> string" where
  "deltas evs = concat (map (\<lambda>x. delta_of (snd x)) evs)"

fun feed_events :: "response \<Rightarrow> (interleaved list \<times> stream_event) list" where
  "feed_events StreamText_rejects = []"
| "feed_events (StreamText_resolves evs during1 fe) = evs"

fun final_text :: "response \<Rightarrow> string option" where
  "final_text (StreamText_resolves evs during1 (Feed_done during2 (Text_resolves t))) = Some t"
| "final_text r = None"

definition persisted_kinds :: "response \<Rightarrow> (Role \<times> MessageBody) list" where
  "persisted_kinds resp =
     map (Pair System) (tool_bodies (feed_events resp))
     @ (case final_text resp of
          None \<Rightarrow> []
        | Some t \<Rightarrow> [(Ai, Text (if t \<noteq> [] then t else deltas (feed_events resp)))])"

definition kind :: "Message \<Rightarrow> Role \<times> MessageBody" where
  "kind m = (role m, message m)"

text \<open>The log of \<open>w'\<close> is the log of \<open>w\<close> followed by undelivered records of the
  user and session, of the given roles and bodies.\<close>

definition appended_undelivered ::
  "string \<Rightarrow> string \<Rightarrow> (Role \<times> MessageBody) list \<Rightarrow> world \<Rightarrow> world \<Rightarrow> bool" where
  "appended_undelivered uid sessId ks w w' =
     (\<exists>news. stored_messages w' = stored_messages w @ news
        \<and> (\<forall>m \<in> set news. \<not> delivered m \<and> deliveredAt m = None
               \<and> to m = uid \<and> sessionId m = sessId)
        \<and> map kind news = ks)"

text \<open>A step of a run with artifact id \<open>mid\<close>, user \<open>uid\<close>, session \<open>sess\<close> and final
  text \<open>ft\<close>, whose last state is \<open>w_end\<close>, does what the specification lets it do:
  its effects are the specified ones; if it finds no presence entry wherever it looks
  the user up, it only appends undelivered records of the user and session; and the
  log as it leaves it is still in the log at the end, but for deliveries.\<close>

definition step_as_specified ::
  "string \<Rightarrow> string \<Rightarrow> string \<Rightarrow> string \<Rightarrow> world \<Rightarrow> own_step \<times> world \<times> world \<Rightarrow> bool" where
  "step_as_specified mid uid sess ft w_end e =
     (case e of (s, v, v') \<Rightarrow>
        trace v' = trace v @ specified_effects mid sess ft s (onlineUsers v uid)
        \<and> ((looks_up s \<longrightarrow> onlineUsers v uid = None) \<longrightarrow>
             (\<exists>ks. appended_undelivered uid sess ks v v'))
        \<and> log_evolves (stored_messages v') (stored_messages w_end))"

section \<open>Example states\<close>

text \<open>The process at its start, with no data directory, and a clock and an id
  generator that never repeat.\<close>

definition fresh_world :: world where
  "fresh_world =
     \<lparr>msg_file = None, sess_file = None, onlineUsers = Map.empty, socket_data = Map.empty,
      trace = [], clock = (\<lambda>n. 1000 + int n), clock_reads = 0,
      uuids = (\<lambda>n. ''id'' @ replicate n (CHR ''+'')), uuid_draws = 0\<rparr>"

text \<open>A log of two records, the first delivered, the second not.\<close>

definition example_log :: world where
  "example_log =
     fresh_world\<lparr>msg_file := Some
       [\<lparr>id_msg = ''m1'', to = ''alice'', sessionId = ''s1'', timestamp = 10, delivered = True,
         deliveredAt = Some 11, role = User, message = Text ''hi''\<rparr>,
        \<lparr>id_msg = ''m2'', to = ''alice'', sessionId = ''s1'', timestamp = 20, delivered = False,
         deliveredAt = None, role = Ai, message = Text ''hello''\<rparr>]\<rparr>"

text \<open>A running server: the example log, one session of \<open>alice\<close>, who is registered
  on the connection \<open>sockA\<close>.\<close>

definition example_server :: world where
  "example_server =
     example_log\<lparr>sess_file := Some
         [\<lparr>id_sess = ''s1'', userId = ''alice'', title = ''trip'', createdAt = 5, updatedAt = 6\<rparr>],
       onlineUsers := [''alice'' \<mapsto> ''sockA''],
       socket_data := [''sockA'' \<mapsto> ''alice'']\<rparr>"

text \<open>
  A run of the engine: a tool call, then a delta, then the end of the feed with an
  empty final text. While the run waits for the delta, \<open>bob\<close> registers on \<open>sockB\<close>
  and sends a message, which starts an invocation of his own; while it waits for the
  final text, \<open>alice\<close> registers on \<open>sockC\<close>. And a run of the engine whose feed throws
  after one tool call.
\<close>

definition example_response :: response where
  "example_response =
     StreamText_resolves
       [([], Ev_tool_call ''get_weather''),
        ([On_socket ''sockB'' (Register ''bob''), On_socket ''sockB'' (Ai_send ''s9'' ''yo'')],
         Ev_text_delta (Some ''sunny''))]
       [] (Feed_done [On_socket ''sockC'' (Register ''alice'')] (Text_resolves ''''))"

text \<open>The same run of the engine, but nobody registers as \<open>alice\<close>.\<close>

definition example_offline_response :: response where
  "example_offline_response =
     StreamText_resolves
       [([], Ev_tool_call ''get_weather''),
        ([On_socket ''sockB'' (Register ''bob''), On_socket ''sockB'' (Ai_send ''s9'' ''yo'')],
         Ev_text_delta (Some ''sunny''))]
       [] (Feed_done [] (Text_resolves ''''))"

definition example_failing_response :: response where
  "example_failing_response =
     StreamText_resolves [([], Ev_tool_call ''get_weather'')] [] Feed_throws"

section \<open>The message log: appending and marking\<close>

lemma stored_messages_addMessage:
  "stored_messages (addMessage msg w) = stored_messages w @ [msg]"
  by (simp add: addMessage_def readStore_def ensureStore_def writeStore_def
      stored_messages_def Let_def)

lemma map_mark_record_same:
  "\<not> list_ex (to_mark ids) xs \<Longrightarrow> map (mark_record ids t) xs = xs"
  by (induction xs) (simp_all add: mark_record_def)

lemma mark_record_twice: "mark_record ids t' (mark_record ids t m) = mark_record ids t m"
  by (simp add: mark_record_def to_mark_def)

lemma no_mark_after_mark: "\<not> list_ex (to_mark ids) (map (mark_record ids t) xs)"
  by (induction xs) (simp_all add: mark_record_def to_mark_def)

lemma msg_file_mark:
  "msg_file (markMessagesDelivered ids w) =
     (if ids = [] then msg_file w
      else Some (map (mark_record ids (clock w (clock_reads w))) (stored_messages w)))"
proof (cases "ids = []")
  case True
  then show ?thesis by (simp add: markMessagesDelivered_def)
next
  case False
  then show ?thesis
    using map_mark_record_same [of ids "stored_messages w" "clock w (clock_reads w)"]
    by (simp add: markMessagesDelivered_def readStore_def ensureStore_def writeStore_def
        Date_now_def stored_messages_def Let_def mark_record_def [abs_def])
qed

lemma stored_messages_mark:
  "stored_messages (markMessagesDelivered ids w) =
     map (mark_record ids (clock w (clock_reads w))) (stored_messages w)"
proof (cases "ids = []")
  case True
  then show ?thesis
    by (simp add: markMessagesDelivered_def mark_record_def [abs_def] to_mark_def)
next
  case False
  then show ?thesis
    by (simp add: msg_file_mark stored_messages_def [of "markMessagesDelivered ids w"])
qed

lemma trace_mark:
  "trace (markMessagesDelivered ids w) =
     (if list_ex (to_mark ids) (stored_messages w) then trace w @ [Write_messages] else trace w)"
  by (auto simp add: markMessagesDelivered_def readStore_def ensureStore_def writeStore_def
        Date_now_def stored_messages_def Let_def to_mark_def list_ex_iff)

text \<open>
  Claim C5. \<open>markMessagesDelivered\<close> is idempotent: a second call with the same ids
  leaves the message file as the first call left it, and writes nothing. A call sets
  \<open>delivered\<close> and stamps \<open>deliveredAt\<close> with the clock's value on exactly the records
  that are undelivered and whose id is in the list, and leaves every other record
  (unknown id, already delivered) as it is. With the empty list the call does nothing at
  all; when every record named by the list is already delivered, \<open>writeStore\<close> is not
  called and the log reads as before (the read may have created a missing file, holding
  the empty log).
\<close>

theorem markMessagesDelivered_idempotent:
  "msg_file (markMessagesDelivered ids (markMessagesDelivered ids w)) =
     msg_file (markMessagesDelivered ids w)
   \<and> trace (markMessagesDelivered ids (markMessagesDelivered ids w)) =
     trace (markMessagesDelivered ids w)
   \<and> stored_messages (markMessagesDelivered ids w) =
       map (\<lambda>m. if id_msg m \<in> set ids \<and> \<not> delivered m
                 then m\<lparr>delivered := True, deliveredAt := Some (clock w (clock_reads w))\<rparr>
                 else m) (stored_messages w)
   \<and> markMessagesDelivered [] w = w
   \<and> ((\<forall>m \<in> set (stored_messages w). id_msg m \<in> set ids \<longrightarrow> delivered m) \<longrightarrow>
        trace (markMessagesDelivered ids w) = trace w
        \<and> stored_messages (markMessagesDelivered ids w) = stored_messages w)"
proof -
  let ?w1 = "markMessagesDelivered ids w"
  have a: "msg_file (markMessagesDelivered ids ?w1) = msg_file ?w1"
    by (simp add: msg_file_mark stored_messages_mark mark_record_twice)
  have b: "trace (markMessagesDelivered ids ?w1) = trace ?w1"
    by (simp add: trace_mark stored_messages_mark no_mark_after_mark)
  have c: "stored_messages ?w1 =
       map (\<lambda>m. if id_msg m \<in> set ids \<and> \<not> delivered m
                 then m\<lparr>delivered := True, deliveredAt := Some (clock w (clock_reads w))\<rparr>
                 else m) (stored_messages w)"
    by (simp add: stored_messages_mark mark_record_def [abs_def] to_mark_def)
  have d: "markMessagesDelivered [] w = w"
    by (simp add: markMessagesDelivered_def)
  have e: "trace ?w1 = trace w \<and> stored_messages ?w1 = stored_messages w"
    if "\<forall>m \<in> set (stored_messages w). id_msg m \<in> set ids \<longrightarrow> delivered m"
  proof -
    from that have "\<not> list_ex (to_mark ids) (stored_messages w)"
      by (auto simp add: list_ex_iff to_mark_def)
    then show ?thesis
      by (simp add: trace_mark stored_messages_mark map_mark_record_same)
  qed
  from a b c d e show ?thesis by blast
qed

text \<open>On the example log, marking the delivered record \<open>m1\<close> and the unknown id
  \<open>zz\<close> writes nothing and changes nothing.\<close>

theorem markMessagesDelivered_idempotent_witness:
  "trace (markMessagesDelivered [''m1'', ''zz''] example_log) = trace example_log
   \<and> stored_messages (markMessagesDelivered [''m1'', ''zz''] example_log) =
       stored_messages example_log"
proof -
  have h: "\<forall>m \<in> set (stored_messages example_log).
             id_msg m \<in> set [''m1'', ''zz''] \<longrightarrow> delivered m"
    by (simp add: example_log_def fresh_world_def stored_messages_def)
  from markMessagesDelivered_idempotent [of "[''m1'', ''zz'']" example_log] h
  show ?thesis by blast
qed

lemma same_but_delivery_refl: "same_but_delivery m m"
  by (simp add: same_but_delivery_def)

lemma same_but_delivery_trans:
  "same_but_delivery a b \<Longrightarrow> same_but_delivery b c \<Longrightarrow> same_but_delivery a c"
  unfolding same_but_delivery_def
  by (cases a, cases b, cases c) auto

lemma same_but_delivery_mark: "same_but_delivery m (mark_record ids t m)"
  by (simp add: same_but_delivery_def mark_record_def to_mark_def)

lemma log_evolves_refl: "log_evolves xs xs"
  by (simp add: log_evolves_def same_but_delivery_refl)

lemma log_evolves_trans:
  "log_evolves xs ys \<Longrightarrow> log_evolves ys zs \<Longrightarrow> log_evolves xs zs"
  unfolding log_evolves_def
  by (meson same_but_delivery_trans le_trans less_le_trans)

lemma log_evolves_step:
  "log_evolves (stored_messages w) (stored_messages (apply_store_op x w))"
proof (cases x)
  case (AddMessage m)
  then show ?thesis
    by (simp add: stored_messages_addMessage log_evolves_def nth_append same_but_delivery_refl)
next
  case (MarkMessagesDelivered ids)
  then show ?thesis
    by (simp add: stored_messages_mark log_evolves_def same_but_delivery_mark)
qed

lemma log_evolves_run:
  "log_evolves (stored_messages w) (stored_messages (run_store_ops ops w))"
proof (induction ops arbitrary: w)
  case Nil
  show ?case by (simp add: log_evolves_refl)
next
  case (Cons x xs)
  show ?case
    using log_evolves_trans [OF log_evolves_step [of w x] Cons.IH [of "apply_store_op x w"]]
    by simp
qed

text \<open>
  Claim C3. Over any sequence of \<open>addMessage\<close> and \<open>markMessagesDelivered\<close> calls, no
  record is deleted or moved (the log only grows, and every record keeps its index),
  every field of a persisted record except \<open>delivered\<close> and \<open>deliveredAt\<close> keeps its
  value, and a record that is delivered stays delivered.
\<close>

theorem log_append_only:
  "length (stored_messages w) \<le> length (stored_messages (run_store_ops ops w))
   \<and> (\<forall>i < length (stored_messages w).
        (stored_messages (run_store_ops ops w) ! i)
           \<lparr>delivered := delivered (stored_messages w ! i),
            deliveredAt := deliveredAt (stored_messages w ! i)\<rparr> = stored_messages w ! i
        \<and> (delivered (stored_messages w ! i) \<longrightarrow>
             delivered (stored_messages (run_store_ops ops w) ! i)))"
  using log_evolves_run [of w ops]
  by (simp add: log_evolves_def same_but_delivery_def)

text \<open>On the example log: after marking both records and appending a third, the first
  record, delivered before, is delivered still.\<close>

theorem log_append_only_witness:
  "0 < length (stored_messages example_log)
   \<and> delivered (stored_messages example_log ! 0)
   \<and> delivered (stored_messages
        (run_store_ops
          [MarkMessagesDelivered [''m1'', ''m2''],
           AddMessage \<lparr>id_msg = ''m3'', to = ''bob'', sessionId = ''s2'', timestamp = 30,
             delivered = False, deliveredAt = None, role = System,
             message = Tool_use ''get_weather''\<rparr>]
          example_log) ! 0)"
proof -
  have h: "0 < length (stored_messages example_log) \<and> delivered (stored_messages example_log ! 0)"
    by (simp add: example_log_def fresh_world_def stored_messages_def)
  from log_append_only [of example_log
      "[MarkMessagesDelivered [''m1'', ''m2''],
        AddMessage \<lparr>id_msg = ''m3'', to = ''bob'', sessionId = ''s2'', timestamp = 30,
          delivered = False, deliveredAt = None, role = System,
          message = Tool_use ''get_weather''\<rparr>]"] h
  show ?thesis by blast
qed

section \<open>What each store operation does to each part of the state\<close>

lemma find_SomeD: "find P xs = Some x \<Longrightarrow> x \<in> set xs \<and> P x"
  by (induction xs) (auto split: if_splits)

lemma findIndex_nonneg_iff: "findIndex P xs \<ge> 0 \<longleftrightarrow> (\<exists>x \<in> set xs. P x)"
  by (induction xs) (auto simp add: Let_def)

lemma findIndex_less: "findIndex P xs < int (length xs)"
  by (induction xs) (auto simp add: Let_def)

lemma stored_messages_update [simp]:
  "stored_messages (msg_file_update (\<lambda>_. Some ms) w) = ms"
  "stored_messages (sess_file_update fs w) = stored_messages w"
  "stored_messages (onlineUsers_update fo w) = stored_messages w"
  "stored_messages (socket_data_update fd w) = stored_messages w"
  "stored_messages (trace_update ft w) = stored_messages w"
  "stored_messages (clock_reads_update fc w) = stored_messages w"
  "stored_messages (uuid_draws_update fu w) = stored_messages w"
  by (simp_all add: stored_messages_def)

lemma stored_sessions_update [simp]:
  "stored_sessions (sess_file_update (\<lambda>_. Some ss) w) = ss"
  "stored_sessions (msg_file_update fm w) = stored_sessions w"
  "stored_sessions (onlineUsers_update fo w) = stored_sessions w"
  "stored_sessions (socket_data_update fd w) = stored_sessions w"
  "stored_sessions (trace_update ft w) = stored_sessions w"
  "stored_sessions (clock_reads_update fc w) = stored_sessions w"
  "stored_sessions (uuid_draws_update fu w) = stored_sessions w"
  by (simp_all add: stored_sessions_def)

lemma ensureStore_fields [simp]:
  "stored_messages (ensureStore w) = stored_messages w"
  "stored_sessions (ensureStore w) = stored_sessions w"
  "onlineUsers (ensureStore w) = onlineUsers w"
  "socket_data (ensureStore w) = socket_data w"
  "trace (ensureStore w) = trace w"
  "clock (ensureStore w) = clock w"
  "clock_reads (ensureStore w) = clock_reads w"
  "uuids (ensureStore w) = uuids w"
  "uuid_draws (ensureStore w) = uuid_draws w"
  by (simp_all add: ensureStore_def)

lemma getSessionsForUser_eq:
  "getSessionsForUser uid w =
     (sort_key (\<lambda>s. - updatedAt s) (filter (\<lambda>s. userId s = uid) (stored_sessions w)),
      ensureStore w)"
  by (simp add: getSessionsForUser_def readSessions_def Let_def)

lemma upsertSession_fields [simp]:
  "stored_sessions (upsertSession item w) =
     (if findIndex (\<lambda>s. id_sess s = id_sess item) (stored_sessions w) \<ge> 0
      then (stored_sessions w)[nat (findIndex (\<lambda>s. id_sess s = id_sess item) (stored_sessions w)) := item]
      else stored_sessions w @ [item])"
  "stored_messages (upsertSession item w) = stored_messages w"
  "onlineUsers (upsertSession item w) = onlineUsers w"
  "socket_data (upsertSession item w) = socket_data w"
  "trace (upsertSession item w) = trace w @ [Write_sessions]"
  "clock (upsertSession item w) = clock w"
  "clock_reads (upsertSession item w) = clock_reads w"
  "uuids (upsertSession item w) = uuids w"
  "uuid_draws (upsertSession item w) = uuid_draws w"
  by (simp_all add: upsertSession_def readSessions_def writeSessions_def Let_def)

lemma addMessage_fields [simp]:
  "stored_messages (addMessage msg w) = stored_messages w @ [msg]"
  "stored_sessions (addMessage msg w) = stored_sessions w"
  "onlineUsers (addMessage msg w) = onlineUsers w"
  "socket_data (addMessage msg w) = socket_data w"
  "trace (addMessage msg w) = trace w @ [Write_messages]"
  "clock (addMessage msg w) = clock w"
  "clock_reads (addMessage msg w) = clock_reads w"
  "uuids (addMessage msg w) = uuids w"
  "uuid_draws (addMessage msg w) = uuid_draws w"
  by (simp_all add: addMessage_def readStore_def writeStore_def Let_def)

lemma emit_fields [simp]:
  "stored_messages (emit sid n w) = stored_messages w"
  "stored_sessions (emit sid n w) = stored_sessions w"
  "onlineUsers (emit sid n w) = onlineUsers w"
  "socket_data (emit sid n w) = socket_data w"
  "trace (emit sid n w) = trace w @ [Emit sid n]"
  "clock (emit sid n w) = clock w"
  "clock_reads (emit sid n w) = clock_reads w"
  "uuids (emit sid n w) = uuids w"
  "uuid_draws (emit sid n w) = uuid_draws w"
  by (simp_all add: emit_def)

lemma example_server_fields:
  "socket_data example_server ''sockA'' = Some ''alice''"
  "onlineUsers example_server ''alice'' = Some ''sockA''"
  "stored_sessions example_server =
     [\<lparr>id_sess = ''s1'', userId = ''alice'', title = ''trip'', createdAt = 5, updatedAt = 6\<rparr>]"
  "stored_messages example_server =
       [\<lparr>id_msg = ''m1'', to = ''alice'', sessionId = ''s1'', timestamp = 10, delivered = True,
         deliveredAt = Some 11, role = User, message = Text ''hi''\<rparr>,
        \<lparr>id_msg = ''m2'', to = ''alice'', sessionId = ''s1'', timestamp = 20, delivered = False,
         deliveredAt = None, role = Ai, message = Text ''hello''\<rparr>]"
  "trace example_server = []"
  "clock example_server n = 1000 + int n"
  "clock_reads example_server = 0"
  "uuids example_server n = ''id'' @ replicate n (CHR ''+'')"
  "uuid_draws example_server = 0"
  by (simp_all add: example_server_def example_log_def fresh_world_def
      stored_sessions_def stored_messages_def)

section \<open>Replay of a session\<close>

text \<open>
  Claim C4. A \<open>session_open\<close> intent on a registered connection, with a non-empty
  session id, emits one \<open>session_messages\<close> notification to that connection. Its
  messages are exactly the persisted records whose \<open>to\<close> is the connection's user and
  whose \<open>sessionId\<close> is the session opened, each as often as it is in the log,
  delivered or not; they are in ascending order of \<open>timestamp\<close>, records of equal
  timestamp in the order of the log. The notification is the same whatever the presence
  registry holds, and the log is left as it was.
\<close>

theorem session_open_replays_session:
  assumes "socket_data w sock = Some uid" and "uid \<noteq> []" and "sessId \<noteq> []"
  shows "\<exists>msgs.
     trace (session_open sock sessId w) = trace w @ [Emit sock (Session_messages sessId msgs)]
     \<and> mset msgs = filter_mset (\<lambda>m. to m = uid \<and> sessionId m = sessId) (mset (stored_messages w))
     \<and> set msgs = {m \<in> set (stored_messages w). to m = uid \<and> sessionId m = sessId}
     \<and> sorted (map timestamp msgs)
     \<and> (\<forall>t. filter (\<lambda>m. timestamp m = t) msgs =
            filter (\<lambda>m. timestamp m = t)
              (filter (\<lambda>m. to m = uid \<and> sessionId m = sessId) (stored_messages w)))
     \<and> (\<forall>p. trace (session_open sock sessId (w\<lparr>onlineUsers := p\<rparr>)) =
            trace (session_open sock sessId w))
     \<and> stored_messages (session_open sock sessId w) = stored_messages w"
proof -
  let ?msgs = "sort_key timestamp
      (filter (\<lambda>m. to m = uid \<and> sessionId m = sessId) (stored_messages w))"
  have tr: "trace (session_open sock sessId w') =
      trace w' @ [Emit sock (Session_messages sessId
        (sort_key timestamp
          (filter (\<lambda>m. to m = uid \<and> sessionId m = sessId) (stored_messages w'))))]"
    if "socket_data w' sock = Some uid" for w'
    using that assms(2,3)
    by (simp add: session_open_def readStore_def Let_def)
  have a: "trace (session_open sock sessId w) =
      trace w @ [Emit sock (Session_messages sessId ?msgs)]"
    using tr [OF assms(1)] .
  have b: "mset ?msgs =
      filter_mset (\<lambda>m. to m = uid \<and> sessionId m = sessId) (mset (stored_messages w))"
    by simp
  have c: "set ?msgs = {m \<in> set (stored_messages w). to m = uid \<and> sessionId m = sessId}"
    by auto
  have d: "sorted (map timestamp ?msgs)"
    by simp
  have e: "filter (\<lambda>m. timestamp m = t) ?msgs =
            filter (\<lambda>m. timestamp m = t)
              (filter (\<lambda>m. to m = uid \<and> sessionId m = sessId) (stored_messages w))" for t
    by (rule sort_key_stable)
  have f: "trace (session_open sock sessId (w\<lparr>onlineUsers := p\<rparr>)) =
            trace (session_open sock sessId w)" for p
    using tr [of "w\<lparr>onlineUsers := p\<rparr>"] tr [of w] assms(1)
    by simp
  have g: "stored_messages (session_open sock sessId w) = stored_messages w"
    using assms
    by (simp add: session_open_def readStore_def Let_def)
  from a b c d e f g show ?thesis by blast
qed

text \<open>On the example server, \<open>alice\<close> opens her session \<open>s1\<close>: both records of the
  log are replayed, the delivered and the undelivered one.\<close>

theorem session_open_replays_session_witness:
  "\<exists>msgs.
     trace (session_open ''sockA'' ''s1'' example_server) =
       [Emit ''sockA'' (Session_messages ''s1'' msgs)]
     \<and> set msgs = set (stored_messages example_server)
     \<and> sorted (map timestamp msgs)"
proof -
  have h: "socket_data example_server ''sockA'' = Some ''alice''" "''alice'' \<noteq> []"
    "''s1'' \<noteq> []"
    by (simp_all add: example_server_fields)
  have all: "{m \<in> set (stored_messages example_server).
               to m = ''alice'' \<and> sessionId m = ''s1''} = set (stored_messages example_server)"
    by (auto simp add: example_server_fields)
  from session_open_replays_session [OF h] obtain msgs where
    "trace (session_open ''sockA'' ''s1'' example_server) =
       trace example_server @ [Emit ''sockA'' (Session_messages ''s1'' msgs)]"
    "set msgs = {m \<in> set (stored_messages example_server).
                   to m = ''alice'' \<and> sessionId m = ''s1''}"
    "sorted (map timestamp msgs)"
    by blast
  then show ?thesis
    unfolding all by (auto simp add: example_server_fields)
qed

section \<open>Registration\<close>




section \<open>Creating a session\<close>

text \<open>
  Claim C10. A \<open>session_create\<close> intent on a registered connection, with a non-empty
  session id: when the user's session list has an item \<open>e\<close> of that id, the item
  written is \<open>e\<close> with a new \<open>updatedAt\<close> and possibly a new \<open>title\<close>, so its
  \<open>createdAt\<close>, \<open>id\<close> and \<open>userId\<close> are those of \<open>e\<close>, and it overwrites a slot of the
  session file; when the user has no session of that id, the item written has the
  current time as \<open>createdAt\<close> and as \<open>updatedAt\<close>.
\<close>

theorem session_create_keeps_createdAt:
  assumes "socket_data w sock = Some uid" and "uid \<noteq> []" and "sessId \<noteq> []"
  shows
    "(let now = clock w (clock_reads w);
          ss = stored_sessions w;
          ss' = stored_sessions (session_create sock sessId ttl w);
          idx = findIndex (\<lambda>s. id_sess s = sessId) ss
      in case find (\<lambda>s. id_sess s = sessId) (fst (getSessionsForUser uid w)) of
           Some e \<Rightarrow>
             0 \<le> idx \<and> nat idx < length ss
             \<and> ss' = ss[nat idx :=
                 e\<lparr>title :=
                      (case ttl of
                         Some t \<Rightarrow>
                           if t \<noteq> [] \<and> js_trim t \<noteq> [] then t
                           else if title e \<noteq> [] then title e else default_title
                       | None \<Rightarrow> if title e \<noteq> [] then title e else default_title),
                    updatedAt := now\<rparr>]
             \<and> createdAt (ss' ! nat idx) = createdAt e
         | None \<Rightarrow>
             ss' =
               (let item = \<lparr>id_sess = sessId, userId = uid,
                             title =
                               (case ttl of
                                  Some t \<Rightarrow>
                                    if t \<noteq> [] \<and> js_trim t \<noteq> [] then t else default_title
                                | None \<Rightarrow> default_title),
                             createdAt = now, updatedAt = now\<rparr>
                in if idx \<ge> 0 then ss[nat idx := item] else ss @ [item]))"
proof (cases "find (\<lambda>s. id_sess s = sessId) (fst (getSessionsForUser uid w))")
  case None
  then show ?thesis
    using assms
    by (cases ttl)
      (simp_all add: session_create_def Date_now_def Let_def getSessionsForUser_eq)
next
  case (Some e)
  then have "e \<in> set (stored_sessions w) \<and> id_sess e = sessId \<and> userId e = uid"
    by (auto simp add: getSessionsForUser_eq dest!: find_SomeD)
  then have e: "e\<lparr>title := T, updatedAt := n\<rparr> =
      \<lparr>id_sess = sessId, userId = uid, title = T, createdAt = createdAt e, updatedAt = n\<rparr>"
    and idx: "findIndex (\<lambda>s. id_sess s = sessId) (stored_sessions w) \<ge> 0" for T n
    by (cases e, auto simp add: findIndex_nonneg_iff)
  have less: "nat (findIndex (\<lambda>s. id_sess s = sessId) (stored_sessions w))
      < length (stored_sessions w)"
    using idx findIndex_less [of "\<lambda>s. id_sess s = sessId" "stored_sessions w"] by linarith
  show ?thesis
    using assms Some idx less
    by (cases ttl)
      (simp_all add: session_create_def Date_now_def Let_def getSessionsForUser_eq e)
qed

text \<open>On the example server, \<open>alice\<close> creates her session \<open>s1\<close> again, with a title:
  the session keeps its \<open>createdAt\<close> of 5.\<close>

theorem session_create_keeps_createdAt_witness:
  "stored_sessions (session_create ''sockA'' ''s1'' (Some ''plan'') example_server) =
     [\<lparr>id_sess = ''s1'', userId = ''alice'', title = ''plan'', createdAt = 5,
       updatedAt = 1000\<rparr>]"
proof -
  have h: "socket_data example_server ''sockA'' = Some ''alice''" "''alice'' \<noteq> []"
    "''s1'' \<noteq> []"
    by (simp_all add: example_server_fields)
  have t: "js_trim ''plan'' = ''plan''"
    by (simp add: js_trim_def js_whitespace_def)
  from session_create_keeps_createdAt [OF h, of "Some ''plan''"]
  show ?thesis
    by (simp add: getSessionsForUser_eq example_server_fields t Let_def)
qed

section \<open>Sending a message\<close>

lemma startAIStream_begin_fields [simp]:
  "stored_messages (snd (startAIStream_begin uid sessId input w)) = stored_messages w"
  "stored_sessions (snd (startAIStream_begin uid sessId input w)) = stored_sessions w"
  "onlineUsers (snd (startAIStream_begin uid sessId input w)) = onlineUsers w"
  "socket_data (snd (startAIStream_begin uid sessId input w)) = socket_data w"
  "clock (snd (startAIStream_begin uid sessId input w)) = clock w"
  "clock_reads (snd (startAIStream_begin uid sessId input w)) = clock_reads w"
  "uuids (snd (startAIStream_begin uid sessId input w)) = uuids w"
  "uuid_draws (snd (startAIStream_begin uid sessId input w)) = Suc (uuid_draws w)"
  "trace (snd (startAIStream_begin uid sessId input w)) = trace w @
     (case onlineUsers w uid of None \<Rightarrow> []
      | Some sid \<Rightarrow> if sid \<noteq> [] then [Emit sid (Ai_started (uuids w (uuid_draws w)) sessId)] else [])"
  "fst (startAIStream_begin uid sessId input w) =
     \<lparr>messageId = uuids w (uuid_draws w), inv_userId = uid, inv_sessionId = sessId,
       inv_input = input, textSoFar = [], done_flag = False, seen = [onlineUsers w uid]\<rparr>"
  by (simp_all add: startAIStream_begin_def randomUUID_def Let_def split: option.splits)

lemma bump_session_unseen:
  "find (\<lambda>s. id_sess s = sessId) (fst (getSessionsForUser from w)) = None \<Longrightarrow>
   bump_session from sessId w = ensureStore w"
  by (simp add: bump_session_def getSessionsForUser_eq)

lemma bump_session_seen:
  "find (\<lambda>s. id_sess s = sessId) (fst (getSessionsForUser from w)) = Some target \<Longrightarrow>
   bump_session from sessId w =
     upsertSession (target\<lparr>updatedAt := clock w (clock_reads w)\<rparr>)
       ((ensureStore w)\<lparr>clock_reads := Suc (clock_reads w)\<rparr>)"
  by (simp add: bump_session_def getSessionsForUser_eq Date_now_def)

lemma bump_session_fields:
  "stored_messages (bump_session from sessId w) = stored_messages w"
  "onlineUsers (bump_session from sessId w) = onlineUsers w"
  "socket_data (bump_session from sessId w) = socket_data w"
  "uuids (bump_session from sessId w) = uuids w"
  "uuid_draws (bump_session from sessId w) = uuid_draws w"
  "clock (bump_session from sessId w) = clock w"
  "trace (bump_session from sessId w) = trace w @
     (case find (\<lambda>s. id_sess s = sessId) (fst (getSessionsForUser from w)) of
        None \<Rightarrow> [] | Some target \<Rightarrow> [Write_sessions])"
  "stored_sessions (bump_session from sessId w) =
     (case find (\<lambda>s. id_sess s = sessId) (fst (getSessionsForUser from w)) of
        None \<Rightarrow> stored_sessions w
      | Some target \<Rightarrow>
          (stored_sessions w)[nat (findIndex (\<lambda>s. id_sess s = sessId) (stored_sessions w)) :=
             target\<lparr>updatedAt := clock w (clock_reads w)\<rparr>])"
proof -
  show "stored_messages (bump_session from sessId w) = stored_messages w"
    "onlineUsers (bump_session from sessId w) = onlineUsers w"
    "socket_data (bump_session from sessId w) = socket_data w"
    "uuids (bump_session from sessId w) = uuids w"
    "uuid_draws (bump_session from sessId w) = uuid_draws w"
    "clock (bump_session from sessId w) = clock w"
    "trace (bump_session from sessId w) = trace w @
     (case find (\<lambda>s. id_sess s = sessId) (fst (getSessionsForUser from w)) of
        None \<Rightarrow> [] | Some target \<Rightarrow> [Write_sessions])"
    by (simp_all add: bump_session_def getSessionsForUser_eq Date_now_def split: option.splits)
  show "stored_sessions (bump_session from sessId w) =
     (case find (\<lambda>s. id_sess s = sessId) (fst (getSessionsForUser from w)) of
        None \<Rightarrow> stored_sessions w
      | Some target \<Rightarrow>
          (stored_sessions w)[nat (findIndex (\<lambda>s. id_sess s = sessId) (stored_sessions w)) :=
             target\<lparr>updatedAt := clock w (clock_reads w)\<rparr>])"
  proof (cases "find (\<lambda>s. id_sess s = sessId) (fst (getSessionsForUser from w))")
    case None
    then show ?thesis by (simp add: bump_session_unseen)
  next
    case (Some target)
    then have "target \<in> set (stored_sessions w) \<and> id_sess target = sessId"
      by (auto simp add: getSessionsForUser_eq dest!: find_SomeD)
    then have "findIndex (\<lambda>s. id_sess s = sessId) (stored_sessions w) \<ge> 0"
      and "id_sess target = sessId"
      by (auto simp add: findIndex_nonneg_iff)
    then show ?thesis
      using Some by (simp add: bump_session_seen)
  qed
qed

lemma ai_send_valid:
  assumes "socket_data w sock = Some from" and "from \<noteq> []" and "txt \<noteq> []" and "sessId \<noteq> []"
  shows "ai_send sock sessId txt w =
    (Some (fst (startAIStream_begin from sessId txt
      (addMessage \<lparr>id_msg = uuids w (uuid_draws w), to = from, sessionId = sessId,
          timestamp = clock w (clock_reads w), delivered = True,
          deliveredAt = Some (clock w (Suc (clock_reads w))), role = User, message = Text txt\<rparr>
        (w\<lparr>uuid_draws := Suc (uuid_draws w), clock_reads := Suc (Suc (clock_reads w))\<rparr>)))),
     bump_session from sessId (snd (startAIStream_begin from sessId txt
      (addMessage \<lparr>id_msg = uuids w (uuid_draws w), to = from, sessionId = sessId,
          timestamp = clock w (clock_reads w), delivered = True,
          deliveredAt = Some (clock w (Suc (clock_reads w))), role = User, message = Text txt\<rparr>
        (w\<lparr>uuid_draws := Suc (uuid_draws w), clock_reads := Suc (Suc (clock_reads w))\<rparr>)))))"
  using assms
  by (simp add: ai_send_def randomUUID_def Date_now_def Let_def split_def)

lemma ai_send_effect:
  assumes "socket_data w sock = Some from" and "from \<noteq> []" and "txt \<noteq> []" and "sessId \<noteq> []"
  shows "fst (ai_send sock sessId txt w) =
       Some \<lparr>messageId = uuids w (Suc (uuid_draws w)), inv_userId = from,
              inv_sessionId = sessId, inv_input = txt, textSoFar = [], done_flag = False,
              seen = [onlineUsers w from]\<rparr>"
    and "stored_messages (snd (ai_send sock sessId txt w)) =
       stored_messages w @
         [\<lparr>id_msg = uuids w (uuid_draws w), to = from, sessionId = sessId,
           timestamp = clock w (clock_reads w), delivered = True,
           deliveredAt = Some (clock w (Suc (clock_reads w))), role = User,
           message = Text txt\<rparr>]"
    and "trace (snd (ai_send sock sessId txt w)) =
       trace w @ [Write_messages]
         @ (case onlineUsers w from of
              None \<Rightarrow> []
            | Some sid \<Rightarrow>
                if sid \<noteq> [] then [Emit sid (Ai_started (uuids w (Suc (uuid_draws w))) sessId)]
                else [])
         @ (case find (\<lambda>s. id_sess s = sessId) (fst (getSessionsForUser from w)) of
              None \<Rightarrow> []
            | Some target \<Rightarrow> [Write_sessions])"
    and "stored_sessions (snd (ai_send sock sessId txt w)) =
       (case find (\<lambda>s. id_sess s = sessId) (fst (getSessionsForUser from w)) of
          None \<Rightarrow> stored_sessions w
        | Some target \<Rightarrow>
            (stored_sessions w)[nat (findIndex (\<lambda>s. id_sess s = sessId) (stored_sessions w)) :=
               target\<lparr>updatedAt := clock w (Suc (Suc (clock_reads w)))\<rparr>])"
  by (simp_all add: ai_send_valid [OF assms] bump_session_fields getSessionsForUser_eq
      cong: option.case_cong if_cong)

text \<open>
  Claim C7, as the code has it. A valid \<open>ai_send\<close> intent (registered connection,
  non-empty session id and text) does three things in this order. It appends the
  user's message to the log, with role \<open>user\<close>, \<open>delivered\<close> set and \<open>deliveredAt\<close>
  stamped. It then calls the orchestrator without waiting for it: the call draws the
  artifact id, emits \<open>ai_started\<close> if the user has a presence entry, and is left
  suspended with an empty text buffer. Last, if the user's session list has an item of
  that session id, it writes that item back with a new \<open>updatedAt\<close>, changing nothing
  else; if there is no such item it writes no session.
\<close>

theorem ai_send_persists_invokes_bumps:
  assumes "socket_data w sock = Some from" and "from \<noteq> []" and "txt \<noteq> []" and "sessId \<noteq> []"
  shows "fst (ai_send sock sessId txt w) =
       Some \<lparr>messageId = uuids w (Suc (uuid_draws w)), inv_userId = from,
              inv_sessionId = sessId, inv_input = txt, textSoFar = [], done_flag = False,
              seen = [onlineUsers w from]\<rparr>
     \<and> stored_messages (snd (ai_send sock sessId txt w)) =
       stored_messages w @
         [\<lparr>id_msg = uuids w (uuid_draws w), to = from, sessionId = sessId,
           timestamp = clock w (clock_reads w), delivered = True,
           deliveredAt = Some (clock w (Suc (clock_reads w))), role = User,
           message = Text txt\<rparr>]
     \<and> trace (snd (ai_send sock sessId txt w)) =
       trace w @ [Write_messages]
         @ (case onlineUsers w from of
              None \<Rightarrow> []
            | Some sid \<Rightarrow>
                if sid \<noteq> [] then [Emit sid (Ai_started (uuids w (Suc (uuid_draws w))) sessId)]
                else [])
         @ (case find (\<lambda>s. id_sess s = sessId) (fst (getSessionsForUser from w)) of
              None \<Rightarrow> []
            | Some target \<Rightarrow> [Write_sessions])
     \<and> stored_sessions (snd (ai_send sock sessId txt w)) =
       (case find (\<lambda>s. id_sess s = sessId) (fst (getSessionsForUser from w)) of
          None \<Rightarrow> stored_sessions w
        | Some target \<Rightarrow>
            (stored_sessions w)[nat (findIndex (\<lambda>s. id_sess s = sessId) (stored_sessions w)) :=
               target\<lparr>updatedAt := clock w (Suc (Suc (clock_reads w)))\<rparr>])"
  using ai_send_effect [OF assms] by simp

text \<open>On the example server, \<open>alice\<close> sends \<open>hi\<close> into her session \<open>s1\<close>: her message
  is appended, delivered, and the session is bumped to the time of the third clock
  reading.\<close>

theorem ai_send_persists_invokes_bumps_witness:
  "stored_messages (snd (ai_send ''sockA'' ''s1'' ''hi'' example_server)) =
     stored_messages example_server @
       [\<lparr>id_msg = ''id'', to = ''alice'', sessionId = ''s1'', timestamp = 1000,
         delivered = True, deliveredAt = Some 1001, role = User, message = Text ''hi''\<rparr>]
   \<and> stored_sessions (snd (ai_send ''sockA'' ''s1'' ''hi'' example_server)) =
     [\<lparr>id_sess = ''s1'', userId = ''alice'', title = ''trip'', createdAt = 5,
       updatedAt = 1002\<rparr>]"
proof -
  have h: "socket_data example_server ''sockA'' = Some ''alice''" "''alice'' \<noteq> []"
    "''hi'' \<noteq> []" "''s1'' \<noteq> []"
    by (simp_all add: example_server_fields)
  from ai_send_persists_invokes_bumps [OF h]
  show ?thesis
    by (simp add: getSessionsForUser_eq example_server_fields)
qed

text \<open>
  Claim C7 as stated fails, in its order and in its bump. On the example server the
  send of \<open>alice\<close> into her session \<open>s1\<close> emits the orchestrator's \<open>ai_started\<close> before
  it writes the session; her send into the unknown session \<open>s2\<close> writes no session at
  all and leaves the session file as it was.
\<close>

theorem ai_send_invokes_before_bump:
  "trace (snd (ai_send ''sockA'' ''s1'' ''hi'' example_server)) =
     [Write_messages, Emit ''sockA'' (Ai_started ''id+'' ''s1''), Write_sessions]
   \<and> trace (snd (ai_send ''sockA'' ''s2'' ''hi'' example_server)) =
     [Write_messages, Emit ''sockA'' (Ai_started ''id+'' ''s2'')]
   \<and> stored_sessions (snd (ai_send ''sockA'' ''s2'' ''hi'' example_server)) =
       stored_sessions example_server"
proof -
  have v: "socket_data example_server ''sockA'' = Some ''alice''" "''alice'' \<noteq> []"
    "''hi'' \<noteq> []" "''s1'' \<noteq> []" "''s2'' \<noteq> []"
    by (simp_all add: example_server_fields)
  show ?thesis
    by (simp add: ai_send_effect [OF v(1,2,3,4)] ai_send_effect [OF v(1,2,3,5)]
        getSessionsForUser_eq example_server_fields)
qed

text \<open>
  Claim C8, as the code has it. A valid \<open>ai_send\<close> intent against a session id that
  the user's session list does not hold creates no session: the session file reads as
  before, \<open>writeSessions\<close> is not called, and the user's session list is unchanged, so
  it still has no item of that id.
\<close>

theorem ai_send_creates_no_session:
  assumes "socket_data w sock = Some from" and "from \<noteq> []" and "txt \<noteq> []" and "sessId \<noteq> []"
    and "find (\<lambda>s. id_sess s = sessId) (fst (getSessionsForUser from w)) = None"
  shows "stored_sessions (snd (ai_send sock sessId txt w)) = stored_sessions w
     \<and> fst (getSessionsForUser from (snd (ai_send sock sessId txt w))) =
         fst (getSessionsForUser from w)
     \<and> find (\<lambda>s. id_sess s = sessId)
           (fst (getSessionsForUser from (snd (ai_send sock sessId txt w)))) = None
     \<and> Write_sessions \<notin> set (drop (length (trace w)) (trace (snd (ai_send sock sessId txt w))))"
proof -
  have ss: "stored_sessions (snd (ai_send sock sessId txt w)) = stored_sessions w"
    using ai_send_effect(4) [OF assms(1-4)] assms(5) by simp
  have tr: "Write_sessions \<notin> set (drop (length (trace w)) (trace (snd (ai_send sock sessId txt w))))"
    using ai_send_effect(3) [OF assms(1-4)] assms(5)
    by (simp split: option.splits)
  have ls: "fst (getSessionsForUser from (snd (ai_send sock sessId txt w))) =
         fst (getSessionsForUser from w)"
    using ss by (simp add: getSessionsForUser_eq)
  from ss tr ls assms(5) show ?thesis by simp
qed

text \<open>On the example server, \<open>alice\<close> has no session \<open>s2\<close>; after she has sent into
  it, her only session is still \<open>s1\<close>.\<close>

theorem ai_send_creates_no_session_witness:
  "map id_sess (fst (getSessionsForUser ''alice''
      (snd (ai_send ''sockA'' ''s2'' ''hi'' example_server)))) = [''s1'']"
proof -
  have h: "socket_data example_server ''sockA'' = Some ''alice''" "''alice'' \<noteq> []"
    "''hi'' \<noteq> []" "''s2'' \<noteq> []"
    "find (\<lambda>s. id_sess s = ''s2'') (fst (getSessionsForUser ''alice'' example_server)) = None"
    by (simp_all add: example_server_fields getSessionsForUser_eq)
  from ai_send_creates_no_session [OF h]
  have "fst (getSessionsForUser ''alice'' (snd (ai_send ''sockA'' ''s2'' ''hi'' example_server))) =
         fst (getSessionsForUser ''alice'' example_server)"
    by blast
  then show ?thesis
    by (simp add: example_server_fields getSessionsForUser_eq)
qed

text \<open>
  Claim C8 as stated fails: on the example server, after \<open>alice\<close> has sent into the
  unseen session \<open>s2\<close>, her session list has no item of that id.
\<close>

theorem ai_send_unseen_session_not_listed:
  "find (\<lambda>s. id_sess s = ''s2'')
     (fst (getSessionsForUser ''alice'' (snd (ai_send ''sockA'' ''s2'' ''hi'' example_server)))) = None"
proof -
  have v: "socket_data example_server ''sockA'' = Some ''alice''" "''alice'' \<noteq> []"
    "''hi'' \<noteq> []" "''s2'' \<noteq> []"
    by (simp_all add: example_server_fields)
  show ?thesis
    by (simp add: ai_send_effect [OF v] getSessionsForUser_eq example_server_fields)
qed

section \<open>The steps of the orchestrator\<close>

lemma markMessagesDelivered_fields [simp]:
  "stored_sessions (markMessagesDelivered ids w) = stored_sessions w"
  "onlineUsers (markMessagesDelivered ids w) = onlineUsers w"
  "socket_data (markMessagesDelivered ids w) = socket_data w"
  "clock (markMessagesDelivered ids w) = clock w"
  "uuids (markMessagesDelivered ids w) = uuids w"
  "uuid_draws (markMessagesDelivered ids w) = uuid_draws w"
  by (simp_all add: markMessagesDelivered_def readStore_def writeStore_def Date_now_def Let_def)

lemma kind_mark_record [simp]: "kind (mark_record ids t m) = kind m"
  by (simp add: kind_def mark_record_def)

lemma map_kind_mark [simp]:
  "map kind (stored_messages (markMessagesDelivered ids w)) = map kind (stored_messages w)"
  by (simp add: stored_messages_mark)

lemma to_mark_self:
  "to_mark [i] \<lparr>id_msg = i, to = u, sessionId = s, timestamp = ts, delivered = False,
      deliveredAt = None, role = r, message = b\<rparr>"
  by (simp add: to_mark_def)

lemma trace_mark_fresh:
  "stored_messages w = xs @ [\<lparr>id_msg = i, to = u, sessionId = s, timestamp = ts,
      delivered = False, deliveredAt = None, role = r, message = b\<rparr>] \<Longrightarrow>
   trace (markMessagesDelivered [i] w) = trace w @ [Write_messages]"
  by (simp add: trace_mark to_mark_self)

lemma log_evolves_append: "log_evolves xs (xs @ ys)"
  by (simp add: log_evolves_def nth_append same_but_delivery_refl)

lemma log_evolves_mark:
  "log_evolves (stored_messages w) (stored_messages (markMessagesDelivered ids w))"
  by (simp add: stored_messages_mark log_evolves_def same_but_delivery_mark)

lemma log_evolves_add_emit_mark:
  "log_evolves (stored_messages w)
     (stored_messages (markMessagesDelivered ids (emit s n (addMessage m w))))"
  using log_evolves_trans [OF _ log_evolves_mark [of "emit s n (addMessage m w)" ids],
      of "stored_messages w"]
  by (simp add: log_evolves_append)

lemma drop_map_kind:
  "map kind ys = map kind xs @ ks \<Longrightarrow> map kind (drop (length xs) ys) = ks"
  by (metis append_eq_conv_conj drop_map length_map)

lemma appended_undelivered_same:
  "stored_messages w' = stored_messages w \<Longrightarrow> appended_undelivered uid sessId [] w w'"
  by (simp add: appended_undelivered_def)

lemma appended_undelivered_one:
  "stored_messages w' = stored_messages w @ [m] \<Longrightarrow> \<not> delivered m \<Longrightarrow> deliveredAt m = None \<Longrightarrow>
   to m = uid \<Longrightarrow> sessionId m = sessId \<Longrightarrow> kind m = k \<Longrightarrow>
   appended_undelivered uid sessId [k] w w'"
  by (simp add: appended_undelivered_def)

text \<open>One iteration of the loop.\<close>

lemma on_event_state:
  "messageId (fst (on_event st ev w)) = messageId st"
  "inv_userId (fst (on_event st ev w)) = inv_userId st"
  "inv_sessionId (fst (on_event st ev w)) = inv_sessionId st"
  "done_flag (fst (on_event st ev w)) = done_flag st"
  "textSoFar (fst (on_event st ev w)) =
     (if done_flag st then textSoFar st else textSoFar st @ delta_of ev)"
proof -
  show "messageId (fst (on_event st ev w)) = messageId st"
    by (cases ev) (simp_all add: Let_def split_def)
  show "inv_userId (fst (on_event st ev w)) = inv_userId st"
    by (cases ev) (simp_all add: Let_def split_def)
  show "inv_sessionId (fst (on_event st ev w)) = inv_sessionId st"
    by (cases ev) (simp_all add: Let_def split_def)
  show "done_flag (fst (on_event st ev w)) = done_flag st"
    by (cases ev) (simp_all add: Let_def split_def)
  show "textSoFar (fst (on_event st ev w)) =
     (if done_flag st then textSoFar st else textSoFar st @ delta_of ev)"
  proof (cases ev)
    case (Ev_text_delta d)
    then show ?thesis by (cases d) (simp_all add: Let_def)
  qed (simp_all add: Let_def split_def)
qed

lemma on_event_presence: "onlineUsers (snd (on_event st ev w)) = onlineUsers w"
proof (cases ev)
  case (Ev_text_delta d)
  then show ?thesis by (simp add: Let_def split: option.splits)
next
  case (Ev_tool_call n)
  then show ?thesis
    by (simp add: Let_def split_def randomUUID_def Date_now_def split: option.splits)
next
  case (Ev_tool_result n)
  then show ?thesis
    by (simp add: Let_def split_def randomUUID_def Date_now_def split: option.splits)
qed simp_all

lemma on_event_kinds:
  "map kind (stored_messages (snd (on_event st ev w))) =
     map kind (stored_messages w) @ map (Pair System) (tool_body ev)"
  by (cases ev)
    (simp_all add: Let_def split_def randomUUID_def Date_now_def kind_def [of "\<lparr>id_msg = _, to = _, sessionId = _, timestamp = _, delivered = _, deliveredAt = _, role = _, message = _\<rparr>"]
      split: option.splits)

lemma on_event_trace:
  assumes "\<not> done_flag st"
  shows "trace (snd (on_event st ev w)) =
     trace w @ specified_effects (messageId st) (inv_sessionId st) ft (At_event ev)
       (onlineUsers w (inv_userId st))"
proof (cases ev)
  case (Ev_text_delta d)
  then show ?thesis
    using assms by (cases d) (simp_all add: Let_def notify_def split: option.splits)
next
  case (Ev_tool_call n)
  then show ?thesis
    by (simp add: Let_def split_def randomUUID_def Date_now_def persist_notify_def
        trace_mark_fresh split: option.splits)
next
  case (Ev_tool_result n)
  then show ?thesis
    by (simp add: Let_def split_def randomUUID_def Date_now_def persist_notify_def
        trace_mark_fresh split: option.splits)
qed simp_all

lemma on_event_offline:
  assumes "looks_up (At_event ev) \<longrightarrow> onlineUsers w (inv_userId st) = None"
  shows "appended_undelivered (inv_userId st) (inv_sessionId st)
           (map (Pair System) (tool_body ev)) w (snd (on_event st ev w))"
proof (cases ev)
  case (Ev_text_delta d)
  then show ?thesis
    by (cases d) (auto simp add: Let_def appended_undelivered_def split: option.splits)
next
  case (Ev_tool_call n)
  then show ?thesis
    using assms
    by (auto simp add: Let_def split_def randomUUID_def Date_now_def kind_def
        intro!: appended_undelivered_one split: option.splits)
next
  case (Ev_tool_result n)
  then show ?thesis
    using assms
    by (auto simp add: Let_def split_def randomUUID_def Date_now_def kind_def
        intro!: appended_undelivered_one split: option.splits)
qed (simp_all add: appended_undelivered_def)

lemma on_event_log_evolves:
  "log_evolves (stored_messages w) (stored_messages (snd (on_event st ev w)))"
proof (cases ev)
  case (Ev_text_delta d)
  then show ?thesis
    by (simp add: Let_def log_evolves_refl split: option.splits)
next
  case (Ev_tool_call n)
  then show ?thesis
    by (simp add: Let_def split_def randomUUID_def Date_now_def log_evolves_append
        log_evolves_add_emit_mark [where w = "_\<lparr>uuid_draws := _, clock_reads := _\<rparr>", simplified]
        split: option.splits)
next
  case (Ev_tool_result n)
  then show ?thesis
    by (simp add: Let_def split_def randomUUID_def Date_now_def log_evolves_append
        log_evolves_add_emit_mark [where w = "_\<lparr>uuid_draws := _, clock_reads := _\<rparr>", simplified]
        split: option.splits)
qed (simp_all add: log_evolves_refl)

text \<open>The finish and the catch block.\<close>

lemma finalize_state:
  "messageId (fst (finalize st t w)) = messageId st"
  "done_flag (fst (finalize st t w))"
  "textSoFar (fst (finalize st t w)) = (if t \<noteq> [] then t else textSoFar st)"
  by (simp_all add: finalize_def Let_def split_def Date_now_def)

lemma finalize_presence: "onlineUsers (snd (finalize st t w)) = onlineUsers w"
  by (simp add: finalize_def Let_def split_def Date_now_def split: option.splits)

lemma finalize_world:
  "map kind (stored_messages (snd (finalize st t w))) =
     map kind (stored_messages w) @ [(Ai, Text (if t \<noteq> [] then t else textSoFar st))]"
  "trace (snd (finalize st t w)) =
     trace w @ specified_effects (messageId st) (inv_sessionId st)
       (if t \<noteq> [] then t else textSoFar st) At_finish (onlineUsers w (inv_userId st))"
  "last (stored_messages (snd (finalize st t w))) =
     \<lparr>id_msg = messageId st, to = inv_userId st, sessionId = inv_sessionId st,
      timestamp = clock w (clock_reads w),
      delivered = present (onlineUsers w (inv_userId st)),
      deliveredAt = (if present (onlineUsers w (inv_userId st))
                     then Some (clock w (Suc (clock_reads w))) else None),
      role = Ai, message = Text (if t \<noteq> [] then t else textSoFar st)\<rparr>"
proof -
  show "map kind (stored_messages (snd (finalize st t w))) =
     map kind (stored_messages w) @ [(Ai, Text (if t \<noteq> [] then t else textSoFar st))]"
    by (simp add: finalize_def Let_def split_def Date_now_def kind_def [of "\<lparr>id_msg = _, to = _, sessionId = _, timestamp = _, delivered = _, deliveredAt = _, role = _, message = _\<rparr>"]
        split: option.splits)
  show "trace (snd (finalize st t w)) =
     trace w @ specified_effects (messageId st) (inv_sessionId st)
       (if t \<noteq> [] then t else textSoFar st) At_finish (onlineUsers w (inv_userId st))"
    by (simp add: finalize_def Let_def split_def Date_now_def trace_mark_fresh
        persist_notify_def split: option.splits)
  show "last (stored_messages (snd (finalize st t w))) =
     \<lparr>id_msg = messageId st, to = inv_userId st, sessionId = inv_sessionId st,
      timestamp = clock w (clock_reads w),
      delivered = present (onlineUsers w (inv_userId st)),
      deliveredAt = (if present (onlineUsers w (inv_userId st))
                     then Some (clock w (Suc (clock_reads w))) else None),
      role = Ai, message = Text (if t \<noteq> [] then t else textSoFar st)\<rparr>"
    by (simp add: finalize_def Let_def split_def Date_now_def stored_messages_mark present_def
        mark_record_def to_mark_self split: option.splits)
qed

lemma finalize_offline:
  assumes "onlineUsers w (inv_userId st) = None"
  shows "appended_undelivered (inv_userId st) (inv_sessionId st)
           [(Ai, Text (if t \<noteq> [] then t else textSoFar st))] w (snd (finalize st t w))"
  using assms
  by (auto simp add: finalize_def Let_def split_def Date_now_def kind_def
      intro!: appended_undelivered_one)

lemma finalize_log_evolves:
  "log_evolves (stored_messages w) (stored_messages (snd (finalize st t w)))"
  by (simp add: finalize_def Let_def split_def Date_now_def log_evolves_append
      log_evolves_add_emit_mark [where w = "_\<lparr>clock_reads := _\<rparr>", simplified]
      split: option.splits)

lemma on_error_fields [simp]:
  "stored_messages (snd (on_error st w)) = stored_messages w"
  "trace (snd (on_error st w)) = trace w @ [Console_error]"
  "onlineUsers (snd (on_error st w)) = onlineUsers w"
  "done_flag (fst (on_error st w))"
  "messageId (fst (on_error st w)) = messageId st"
  by (simp_all add: on_error_def)

text \<open>What runs in between leaves every record in the log, changing deliveries at
  most.\<close>

lemma register_log: "stored_messages (register sock uid w) = stored_messages w"
  by (simp add: register_def getSessionsForUser_eq Let_def)

lemma session_create_log:
  "stored_messages (session_create sock sessId ttl w) = stored_messages w"
  by (simp add: session_create_def getSessionsForUser_eq Date_now_def Let_def
      split: option.splits)

lemma session_open_log: "stored_messages (session_open sock sessId w) = stored_messages w"
  by (simp add: session_open_def readStore_def Let_def split: option.splits)

lemma disconnect_log: "stored_messages (disconnect sock w) = stored_messages w"
  by (simp add: disconnect_def split: option.splits)

lemma ai_send_log_evolves:
  "log_evolves (stored_messages w) (stored_messages (snd (ai_send sock sessId txt w)))"
proof (cases "\<exists>uid. socket_data w sock = Some uid \<and> uid \<noteq> [] \<and> txt \<noteq> [] \<and> sessId \<noteq> []")
  case True
  then obtain uid where "socket_data w sock = Some uid" "uid \<noteq> []" "txt \<noteq> []" "sessId \<noteq> []"
    by blast
  from ai_send_effect(2) [OF this] show ?thesis
    by (simp add: log_evolves_append)
next
  case False
  then have "ai_send sock sessId txt w = (None, w)"
    by (auto simp add: ai_send_def split: option.splits)
  then show ?thesis by (simp add: log_evolves_refl)
qed

lemma run_interleaved_log_evolves:
  "log_evolves (stored_messages w) (stored_messages (run_interleaved x w))"
proof (cases x)
  case (On_socket sock ev)
  then show ?thesis
    by (cases ev)
      (simp_all add: register_log session_create_log session_open_log disconnect_log
        ai_send_log_evolves log_evolves_refl)
next
  case (Bump_session uid sessId)
  then show ?thesis by (simp add: bump_session_fields log_evolves_refl)
next
  case (Elsewhere st r)
  then show ?thesis
    by (cases r) (simp_all add: on_event_log_evolves finalize_log_evolves log_evolves_refl)
qed

lemma interleave_log_evolves:
  "log_evolves (stored_messages w) (stored_messages (interleave ds w))"
proof (induction ds arbitrary: w)
  case Nil
  show ?case by (simp add: log_evolves_refl)
next
  case (Cons x xs)
  from log_evolves_trans [OF run_interleaved_log_evolves Cons.IH]
  show ?case by simp
qed

section \<open>The journal of a run\<close>

lemma own_effects_simps [simp]:
  "own_effects [] = []"
  "own_effects ((s, v, v') # j) = drop (length (trace v)) (trace v') @ own_effects j"
  "own_effects (j @ j') = own_effects j @ own_effects j'"
  by (simp_all add: own_effects_def)

lemma own_records_simps [simp]:
  "own_records [] = []"
  "own_records ((s, v, v') # j) =
     drop (length (stored_messages v)) (stored_messages v') @ own_records j"
  "own_records (j @ j') = own_records j @ own_records j'"
  by (simp_all add: own_records_def)

lemma run_parts [simp]:
  "run_state (st, w, j) = st"
  "run_world (st, w, j) = w"
  "run_journal (st, w, j) = j"
  by (simp_all add: run_state_def run_world_def run_journal_def)

lemma consume_feed_Nil:
  "run_state (consume_feed st [] w) = st"
  "run_world (consume_feed st [] w) = w"
  "run_journal (consume_feed st [] w) = []"
  by simp_all

lemma consume_feed_Cons:
  "run_state (consume_feed st (x # xs) w) =
     run_state (consume_feed (fst (on_event st (snd x) (interleave (fst x) w))) xs
       (snd (on_event st (snd x) (interleave (fst x) w))))"
  "run_world (consume_feed st (x # xs) w) =
     run_world (consume_feed (fst (on_event st (snd x) (interleave (fst x) w))) xs
       (snd (on_event st (snd x) (interleave (fst x) w))))"
  "run_journal (consume_feed st (x # xs) w) =
     (At_event (snd x), interleave (fst x) w, snd (on_event st (snd x) (interleave (fst x) w)))
     # run_journal (consume_feed (fst (on_event st (snd x) (interleave (fst x) w))) xs
         (snd (on_event st (snd x) (interleave (fst x) w))))"
  by (cases x; simp add: run_state_def run_world_def run_journal_def split_def Let_def)+

lemma consume_feed_state:
  "messageId (run_state (consume_feed st evs w)) = messageId st"
  "inv_userId (run_state (consume_feed st evs w)) = inv_userId st"
  "inv_sessionId (run_state (consume_feed st evs w)) = inv_sessionId st"
  "done_flag (run_state (consume_feed st evs w)) = done_flag st"
  "\<not> done_flag st \<Longrightarrow>
     textSoFar (run_state (consume_feed st evs w)) = textSoFar st @ deltas evs"
proof -
  show "messageId (run_state (consume_feed st evs w)) = messageId st"
    by (induction evs arbitrary: st w) (simp_all add: consume_feed_Cons on_event_state)
  show "inv_userId (run_state (consume_feed st evs w)) = inv_userId st"
    by (induction evs arbitrary: st w) (simp_all add: consume_feed_Cons on_event_state)
  show "inv_sessionId (run_state (consume_feed st evs w)) = inv_sessionId st"
    by (induction evs arbitrary: st w) (simp_all add: consume_feed_Cons on_event_state)
  show "done_flag (run_state (consume_feed st evs w)) = done_flag st"
    by (induction evs arbitrary: st w) (simp_all add: consume_feed_Cons on_event_state)
  show "\<not> done_flag st \<Longrightarrow>
     textSoFar (run_state (consume_feed st evs w)) = textSoFar st @ deltas evs"
    by (induction evs arbitrary: st w)
      (simp_all add: consume_feed_Cons on_event_state deltas_def)
qed

lemma consume_feed_log_evolves:
  "log_evolves (stored_messages w) (stored_messages (run_world (consume_feed st evs w)))"
proof (induction evs arbitrary: st w)
  case Nil
  show ?case by (simp add: log_evolves_refl)
next
  case (Cons x xs)
  let ?v = "interleave (fst x) w"
  let ?r = "on_event st (snd x) ?v"
  from log_evolves_trans [OF log_evolves_trans [OF interleave_log_evolves on_event_log_evolves]
      Cons.IH [where st = "fst ?r" and w = "snd ?r"]]
  show ?case by (simp add: consume_feed_Cons)
qed

lemma consume_feed_kinds:
  "map kind (own_records (run_journal (consume_feed st evs w))) =
     map (Pair System) (tool_bodies evs)"
proof (induction evs arbitrary: st w)
  case Nil
  show ?case by (simp add: tool_bodies_def)
next
  case (Cons x xs)
  from Cons.IH show ?case
    by (simp add: consume_feed_Cons tool_bodies_def drop_map_kind [OF on_event_kinds])
qed

lemma consume_feed_steps:
  "(s, v, v') \<in> set (run_journal (consume_feed st evs w)) \<Longrightarrow> \<exists>ev. s = At_event ev"
  by (induction evs arbitrary: st w) (auto simp add: consume_feed_Cons)

lemma event_step_as_specified:
  assumes "\<not> done_flag st"
    and "log_evolves (stored_messages (snd (on_event st ev v))) (stored_messages w_end)"
  shows "step_as_specified (messageId st) (inv_userId st) (inv_sessionId st) ft w_end
           (At_event ev, v, snd (on_event st ev v))"
  using assms on_event_offline [of ev v st]
  by (auto simp add: step_as_specified_def on_event_trace)

lemma consume_feed_entries:
  assumes "\<not> done_flag st"
    and "log_evolves (stored_messages (run_world (consume_feed st evs w))) (stored_messages w_end)"
  shows "\<forall>e \<in> set (run_journal (consume_feed st evs w)).
           step_as_specified (messageId st) (inv_userId st) (inv_sessionId st) ft w_end e"
  using assms
proof (induction evs arbitrary: st w)
  case Nil
  show ?case by simp
next
  case (Cons x xs)
  let ?v = "interleave (fst x) w"
  let ?r = "on_event st (snd x) ?v"
  have d: "\<not> done_flag (fst ?r)"
    using Cons.prems(1) by (simp add: on_event_state)
  have e: "log_evolves (stored_messages (run_world (consume_feed (fst ?r) xs (snd ?r))))
      (stored_messages w_end)"
    using Cons.prems(2) by (simp add: consume_feed_Cons)
  from log_evolves_trans [OF consume_feed_log_evolves e]
  have h: "log_evolves (stored_messages (snd ?r)) (stored_messages w_end)" .
  note hd = event_step_as_specified [OF Cons.prems(1) h, of ft]
  note tl = Cons.IH [OF d e, unfolded on_event_state]
  from hd tl show ?case
    by (simp add: consume_feed_Cons)
qed

section \<open>The shape of a run\<close>

lemma interleave_append: "interleave (xs @ ys) w = interleave ys (interleave xs w)"
  by (induction xs arbitrary: w) simp_all

text \<open>A run is its start, the iterations of its loop, and then its finish when the
  final text resolves, its catch block otherwise.\<close>

lemma run_shape:
  assumes "b = startAIStream_begin uid sessId input w"
    and "c = consume_feed (fst b) (feed_events resp) (interleave during (snd b))"
    and "r = startAIStream uid sessId input during resp w"
  shows "\<exists>ds v. v = interleave ds (run_world c) \<and>
     (case final_text resp of
        None \<Rightarrow>
          run_state r = fst (on_error (run_state c) v)
          \<and> run_world r = snd (on_error (run_state c) v)
          \<and> run_journal r = (At_start, w, snd b) # run_journal c @ [(At_catch, v, run_world r)]
      | Some t \<Rightarrow>
          run_state r = fst (finalize (run_state c) t v)
          \<and> run_world r = snd (finalize (run_state c) t v)
          \<and> run_journal r = (At_start, w, snd b) # run_journal c @ [(At_finish, v, run_world r)])"
proof (cases resp)
  case StreamText_rejects
  show ?thesis
    by (rule exI [where x = "[]"])
      (simp add: assms StreamText_rejects startAIStream_def split_def Let_def
        run_state_def run_world_def run_journal_def del: startAIStream_begin_fields)
next
  case (StreamText_resolves evs d1 fe)
  show ?thesis
  proof (cases fe)
    case Feed_throws
    show ?thesis
      by (rule exI [where x = d1])
        (simp add: assms StreamText_resolves Feed_throws startAIStream_def split_def Let_def
          run_state_def run_world_def run_journal_def del: startAIStream_begin_fields)
  next
    case (Feed_done d2 tr)
    show ?thesis
    proof (cases tr)
      case Text_rejects
      show ?thesis
        by (rule exI [where x = "d1 @ d2"])
          (simp add: assms StreamText_resolves Feed_done Text_rejects startAIStream_def
            split_def Let_def interleave_append
            run_state_def run_world_def run_journal_def del: startAIStream_begin_fields)
    next
      case (Text_resolves t)
      show ?thesis
        by (rule exI [where x = "d1 @ d2"])
          (simp add: assms StreamText_resolves Feed_done Text_resolves startAIStream_def
            split_def Let_def interleave_append
            run_state_def run_world_def run_journal_def del: startAIStream_begin_fields)
    qed
  qed
qed

lemma begin_step_as_specified:
  assumes "log_evolves (stored_messages w) (stored_messages w_end)"
  shows "step_as_specified (uuids w (uuid_draws w)) uid sessId ft w_end
           (At_start, w, snd (startAIStream_begin uid sessId input w))"
  using assms by (simp add: step_as_specified_def notify_def appended_undelivered_def)

lemma finalize_step_as_specified:
  assumes "log_evolves (stored_messages (snd (finalize st t v))) (stored_messages w_end)"
  shows "step_as_specified (messageId st) (inv_userId st) (inv_sessionId st)
           (if t \<noteq> [] then t else textSoFar st) w_end (At_finish, v, snd (finalize st t v))"
  using assms finalize_offline [of v st t]
  by (auto simp add: step_as_specified_def finalize_world(2))

lemma catch_step_as_specified:
  assumes "log_evolves (stored_messages (snd (on_error st v))) (stored_messages w_end)"
  shows "step_as_specified mid uid sess ft w_end (At_catch, v, snd (on_error st v))"
  using assms by (simp add: step_as_specified_def appended_undelivered_def)

text \<open>Every step of every run does what the specification lets it do.\<close>

lemma run_entries:
  assumes "r = startAIStream uid sessId input during resp w"
    and "ftxt = (case final_text resp of
                   None \<Rightarrow> ft
                 | Some t \<Rightarrow> if t \<noteq> [] then t else deltas (feed_events resp))"
  shows "\<forall>e \<in> set (run_journal r).
           step_as_specified (uuids w (uuid_draws w)) uid sessId ftxt (run_world r) e"
proof -
  define b where "b = startAIStream_begin uid sessId input w"
  define st0 where "st0 = fst b"
  define c where "c = consume_feed st0 (feed_events resp) (interleave during (snd b))"
  have st0: "messageId st0 = uuids w (uuid_draws w)" "inv_userId st0 = uid"
    "inv_sessionId st0 = sessId" "\<not> done_flag st0" "textSoFar st0 = []"
    by (simp_all add: st0_def b_def)
  have stc: "messageId (run_state c) = uuids w (uuid_draws w)" "inv_userId (run_state c) = uid"
    "inv_sessionId (run_state c) = sessId"
    "textSoFar (run_state c) = deltas (feed_events resp)"
    by (simp_all add: c_def consume_feed_state st0)
  from run_shape [OF b_def c_def [unfolded st0_def] assms(1)]
  obtain ds v where v: "v = interleave ds (run_world c)"
    and shape: "case final_text resp of
        None \<Rightarrow>
          run_state r = fst (on_error (run_state c) v)
          \<and> run_world r = snd (on_error (run_state c) v)
          \<and> run_journal r = (At_start, w, snd b) # run_journal c @ [(At_catch, v, run_world r)]
      | Some t \<Rightarrow>
          run_state r = fst (finalize (run_state c) t v)
          \<and> run_world r = snd (finalize (run_state c) t v)
          \<and> run_journal r = (At_start, w, snd b) # run_journal c @ [(At_finish, v, run_world r)]"
    by blast
  have wb: "log_evolves (stored_messages w) (stored_messages (interleave during (snd b)))"
    using interleave_log_evolves [of "snd b" during] by (simp add: b_def)
  have bc: "log_evolves (stored_messages (interleave during (snd b))) (stored_messages (run_world c))"
    unfolding c_def by (rule consume_feed_log_evolves)
  have cv: "log_evolves (stored_messages (run_world c)) (stored_messages v)"
    unfolding v by (rule interleave_log_evolves)
  have ve: "log_evolves (stored_messages v) (stored_messages (run_world r))"
    using shape
    by (cases "final_text resp") (simp_all add: log_evolves_refl finalize_log_evolves)
  note ce = log_evolves_trans [OF cv ve]
  note we = log_evolves_trans [OF wb log_evolves_trans [OF bc ce]]
  have first: "step_as_specified (uuids w (uuid_draws w)) uid sessId ftxt (run_world r)
      (At_start, w, snd b)"
    unfolding b_def by (rule begin_step_as_specified [OF we])
  have feed: "\<forall>e \<in> set (run_journal c).
      step_as_specified (uuids w (uuid_draws w)) uid sessId ftxt (run_world r) e"
    using consume_feed_entries [OF st0(4) ce [unfolded c_def], of ftxt]
    by (simp add: st0 c_def)
  have last: "step_as_specified (uuids w (uuid_draws w)) uid sessId ftxt (run_world r)
      (last (run_journal r))"
  proof (cases "final_text resp")
    case None
    with shape have wr: "run_world r = snd (on_error (run_state c) v)"
      and jr: "last (run_journal r) = (At_catch, v, run_world r)"
      by simp_all
    show ?thesis
      unfolding jr unfolding wr
      by (rule catch_step_as_specified) (rule log_evolves_refl)
  next
    case (Some t)
    with shape have wr: "run_world r = snd (finalize (run_state c) t v)"
      and jr: "last (run_journal r) = (At_finish, v, run_world r)"
      by simp_all
    have f: "ftxt = (if t \<noteq> [] then t else textSoFar (run_state c))"
      by (simp add: assms(2) Some stc)
    from finalize_step_as_specified [of "run_state c" t v "run_world r"]
    show ?thesis
      unfolding jr by (simp add: wr f stc log_evolves_refl)
  qed
  have "set (run_journal r) = insert (At_start, w, snd b) (insert (last (run_journal r)) (set (run_journal c)))"
    using shape by (cases "final_text resp") auto
  with first feed last show ?thesis
    by simp
qed

text \<open>What every run persists, and how it ends.\<close>

lemma run_kinds:
  "map kind (own_records (run_journal (startAIStream uid sessId input during resp w))) =
     persisted_kinds resp"
proof -
  define r where "r = startAIStream uid sessId input during resp w"
  define b where "b = startAIStream_begin uid sessId input w"
  define st0 where "st0 = fst b"
  define c where "c = consume_feed st0 (feed_events resp) (interleave during (snd b))"
  have st0: "\<not> done_flag st0" "textSoFar st0 = []"
    by (simp_all add: st0_def b_def)
  have stc: "textSoFar (run_state c) = deltas (feed_events resp)"
    by (simp add: c_def consume_feed_state st0)
  have kc: "map kind (own_records (run_journal c)) =
      map (Pair System) (tool_bodies (feed_events resp))"
    unfolding c_def by (rule consume_feed_kinds)
  have sb: "stored_messages (snd b) = stored_messages w"
    by (simp add: b_def)
  from run_shape [OF b_def c_def [unfolded st0_def] r_def]
  obtain ds :: "interleaved list" and v where shape: "case final_text resp of
        None \<Rightarrow>
          run_state r = fst (on_error (run_state c) v)
          \<and> run_world r = snd (on_error (run_state c) v)
          \<and> run_journal r = (At_start, w, snd b) # run_journal c @ [(At_catch, v, run_world r)]
      | Some t \<Rightarrow>
          run_state r = fst (finalize (run_state c) t v)
          \<and> run_world r = snd (finalize (run_state c) t v)
          \<and> run_journal r = (At_start, w, snd b) # run_journal c @ [(At_finish, v, run_world r)]"
    by blast
  have "map kind (own_records (run_journal r)) = persisted_kinds resp"
  proof (cases "final_text resp")
    case None
    with shape show ?thesis
      by (simp add: sb kc persisted_kinds_def)
  next
    case (Some t)
    with shape show ?thesis
      by (simp add: sb kc persisted_kinds_def stc drop_map_kind [OF finalize_world(1)])
  qed
  then show ?thesis
    by (simp add: r_def)
qed

section \<open>A run while the user is offline\<close>

lemma specified_quiet:
  assumes "looks_up s \<longrightarrow> p = None"
  shows "\<forall>e \<in> set (specified_effects mid sess ft s p). \<not> is_ai_notification e"
proof (cases s)
  case (At_event ev)
  show ?thesis
  proof (cases ev)
    case (Ev_text_delta x)
    with assms At_event show ?thesis
      by (cases x) (auto simp add: notify_def)
  qed (use assms At_event in \<open>simp_all add: persist_notify_def\<close>)
qed (use assms in \<open>simp_all add: notify_def persist_notify_def\<close>)

lemma offline_step:
  assumes "step_as_specified mid uid sess ft w_end (s, v, v')"
    and "looks_up s \<longrightarrow> onlineUsers v uid = None"
  shows "\<forall>e \<in> set (drop (length (trace v)) (trace v')). \<not> is_ai_notification e"
    and "\<forall>m \<in> set (drop (length (stored_messages v)) (stored_messages v')).
           \<not> delivered m \<and> deliveredAt m = None \<and> to m = uid \<and> sessionId m = sess"
    and "\<exists>news. stored_messages v' = stored_messages v @ news"
    and "log_evolves (stored_messages v') (stored_messages w_end)"
proof -
  from assms(1) have t: "trace v' = trace v @ specified_effects mid sess ft s (onlineUsers v uid)"
    and a: "(looks_up s \<longrightarrow> onlineUsers v uid = None) \<longrightarrow>
             (\<exists>ks. appended_undelivered uid sess ks v v')"
    and l: "log_evolves (stored_messages v') (stored_messages w_end)"
    by (simp_all add: step_as_specified_def)
  from t specified_quiet [OF assms(2)]
  show "\<forall>e \<in> set (drop (length (trace v)) (trace v')). \<not> is_ai_notification e"
    by simp
  from a assms(2) obtain news where
    n: "stored_messages v' = stored_messages v @ news"
    and u: "\<forall>m \<in> set news. \<not> delivered m \<and> deliveredAt m = None
               \<and> to m = uid \<and> sessionId m = sess"
    unfolding appended_undelivered_def by blast
  from n u show "\<forall>m \<in> set (drop (length (stored_messages v)) (stored_messages v')).
           \<not> delivered m \<and> deliveredAt m = None \<and> to m = uid \<and> sessionId m = sess"
    by simp
  from n show "\<exists>news. stored_messages v' = stored_messages v @ news" ..
  from l show "log_evolves (stored_messages v') (stored_messages w_end)" .
qed

lemma offline_journal:
  assumes "\<forall>e \<in> set j. step_as_specified mid uid sess ft w_end e"
    and "\<forall>(s, v, v') \<in> set j. looks_up s \<longrightarrow> onlineUsers v uid = None"
  shows "\<forall>e \<in> set (own_effects j). \<not> is_ai_notification e"
    and "\<forall>m \<in> set (own_records j).
           \<not> delivered m \<and> deliveredAt m = None \<and> to m = uid \<and> sessionId m = sess"
    and "\<forall>(s, v, v') \<in> set j.
           (\<exists>news. stored_messages v' = stored_messages v @ news)
           \<and> log_evolves (stored_messages v') (stored_messages w_end)"
proof -
  show "\<forall>e \<in> set (own_effects j). \<not> is_ai_notification e"
    using assms
  proof (induction j)
    case Nil
    show ?case by simp
  next
    case (Cons x xs)
    obtain s v v' where x: "x = (s, v, v')" by (cases x)
    from Cons.prems have "step_as_specified mid uid sess ft w_end (s, v, v')"
      and "looks_up s \<longrightarrow> onlineUsers v uid = None"
      by (simp_all add: x)
    note h = offline_step(1) [OF this]
    from Cons.prems have "\<forall>e \<in> set (own_effects xs). \<not> is_ai_notification e"
      by (intro Cons.IH) simp_all
    with h show ?case
      unfolding x own_effects_simps(2) set_append by blast
  qed
  show "\<forall>m \<in> set (own_records j).
           \<not> delivered m \<and> deliveredAt m = None \<and> to m = uid \<and> sessionId m = sess"
    using assms
  proof (induction j)
    case Nil
    show ?case by simp
  next
    case (Cons x xs)
    obtain s v v' where x: "x = (s, v, v')" by (cases x)
    from Cons.prems have "step_as_specified mid uid sess ft w_end (s, v, v')"
      and "looks_up s \<longrightarrow> onlineUsers v uid = None"
      by (simp_all add: x)
    note h = offline_step(2) [OF this]
    from Cons.prems have "\<forall>m \<in> set (own_records xs).
           \<not> delivered m \<and> deliveredAt m = None \<and> to m = uid \<and> sessionId m = sess"
      by (intro Cons.IH) simp_all
    with h show ?case
      unfolding x own_records_simps(2) set_append by blast
  qed
  show "\<forall>(s, v, v') \<in> set j.
           (\<exists>news. stored_messages v' = stored_messages v @ news)
           \<and> log_evolves (stored_messages v') (stored_messages w_end)"
  proof (intro ballI)
    fix x assume xin: "x \<in> set j"
    obtain s v v' where x: "x = (s, v, v')" by (cases x)
    from assms xin have "step_as_specified mid uid sess ft w_end (s, v, v')"
      and "looks_up s \<longrightarrow> onlineUsers v uid = None"
      unfolding x by blast+
    note h = offline_step(3,4) [OF this]
    then show "case x of (s, v, v') \<Rightarrow>
           (\<exists>news. stored_messages v' = stored_messages v @ news)
           \<and> log_evolves (stored_messages v') (stored_messages w_end)"
      unfolding x by simp
  qed
qed

text \<open>
  Claim C1. Take any run of \<open>startAIStream\<close> for the user \<open>uid\<close>, whatever the engine
  does and whatever else runs in the process while the run is suspended (handlers of
  the gateway, sends among them, and steps of other invocations). Suppose that at every
  step at which the run looks \<open>uid\<close> up in \<open>onlineUsers\<close>, \<open>uid\<close> has no entry there in
  the state the step starts in. Then none of the effects of the run's own steps is an
  \<open>ai_started\<close>, \<open>ai_chunk\<close>, \<open>ai_complete\<close>, \<open>ai_tool_call\<close> or \<open>ai_tool_result\<close>
  notification. The records the run's own steps add to the log are, in this order, a
  \<open>system\<close> record for every tool call and tool result of the feed and, when the final
  text resolves, one \<open>ai\<close> text record; each of them is persisted with \<open>delivered\<close>
  false and no \<open>deliveredAt\<close>, for \<open>uid\<close> and the session of the run. Every step of
  the run only appends to the log, and the log as the step leaves it is still in the
  log at the end of the run: what ran in between has removed and reordered nothing, and
  has changed no field of a record but \<open>delivered\<close> and \<open>deliveredAt\<close> (the run
  itself marks no record; another invocation marks records by id).
\<close>

theorem offline_run_emits_nothing_persists_all:
  assumes "r = startAIStream uid sessId input during resp w"
    and "\<forall>(s, v, v') \<in> set (run_journal r). looks_up s \<longrightarrow> onlineUsers v uid = None"
  shows "(\<forall>e \<in> set (own_effects (run_journal r)). \<not> is_ai_notification e)
     \<and> map kind (own_records (run_journal r)) = persisted_kinds resp
     \<and> (\<forall>m \<in> set (own_records (run_journal r)).
          \<not> delivered m \<and> deliveredAt m = None \<and> to m = uid \<and> sessionId m = sessId)
     \<and> (\<forall>(s, v, v') \<in> set (run_journal r).
          (\<exists>news. stored_messages v' = stored_messages v @ news)
          \<and> log_evolves (stored_messages v') (stored_messages (run_world r)))"
proof -
  note e = run_entries [OF assms(1) refl]
  note o = offline_journal [OF e assms(2)]
  have k: "map kind (own_records (run_journal r)) = persisted_kinds resp"
    unfolding assms(1) by (rule run_kinds)
  from o(1) k o(2) o(3) show ?thesis
    by (intro conjI)
qed

lemma register_presence:
  "onlineUsers (register sock uid w) =
     (if uid = [] then onlineUsers w else (onlineUsers w)(uid \<mapsto> sock))"
  by (simp add: register_def Let_def split_def getSessionsForUser_eq)

lemma ai_send_presence: "onlineUsers (snd (ai_send sock sessId txt w)) = onlineUsers w"
  by (simp add: ai_send_def Let_def split_def randomUUID_def Date_now_def bump_session_fields
      split: option.splits)

lemma example_log_presence: "onlineUsers example_log = Map.empty"
  by (simp add: example_log_def fresh_world_def)

lemma example_offline_lookups:
  "map (\<lambda>(s, v, v'). (s, onlineUsers v ''alice''))
     (run_journal (startAIStream ''alice'' ''s1'' ''hi'' [] example_offline_response example_log)) =
   [(At_start, None), (At_event (Ev_tool_call ''get_weather''), None),
    (At_event (Ev_text_delta (Some ''sunny'')), None), (At_finish, None)]"
  by (simp add: startAIStream_def example_offline_response_def Let_def split_def
      on_event_presence finalize_presence register_presence ai_send_presence
      example_log_presence del: on_event.simps)

lemma example_offline_kinds:
  "persisted_kinds example_offline_response =
     [(System, Tool_use ''get_weather''), (Ai, Text ''sunny'')]"
  by (simp add: persisted_kinds_def example_offline_response_def tool_bodies_def deltas_def)

text \<open>On the example log nobody is online. While the example run for \<open>alice\<close> is
  suspended, \<open>bob\<close> registers and sends a message; \<open>alice\<close> has no presence entry at
  any of the run's four lookups. The run emits no notification of the orchestrator,
  and persists the tool record and the final record, both undelivered.\<close>

theorem offline_run_emits_nothing_persists_all_witness:
  "list_all (\<lambda>e. \<not> is_ai_notification e)
     (own_effects (run_journal
        (startAIStream ''alice'' ''s1'' ''hi'' [] example_offline_response example_log)))
   \<and> map kind (own_records (run_journal
        (startAIStream ''alice'' ''s1'' ''hi'' [] example_offline_response example_log))) =
       [(System, Tool_use ''get_weather''), (Ai, Text ''sunny'')]
   \<and> list_all (\<lambda>m. \<not> delivered m \<and> to m = ''alice'')
       (own_records (run_journal
          (startAIStream ''alice'' ''s1'' ''hi'' [] example_offline_response example_log)))"
proof -
  let ?r = "startAIStream ''alice'' ''s1'' ''hi'' [] example_offline_response example_log"
  let ?f = "\<lambda>(s, v, v'). (s, onlineUsers v ''alice'')"
  have "\<forall>p \<in> set (map ?f (run_journal ?r)). snd p = None"
    unfolding example_offline_lookups by simp
  then have h: "\<forall>(s, v, v') \<in> set (run_journal ?r). looks_up s \<longrightarrow> onlineUsers v ''alice'' = None"
    by (simp add: split_def)
  note th = offline_run_emits_nothing_persists_all [OF refl h]
  from th [THEN conjunct1]
  have a: "list_all (\<lambda>e. \<not> is_ai_notification e) (own_effects (run_journal ?r))"
    unfolding list_all_iff .
  from th [THEN conjunct2, THEN conjunct1]
  have b: "map kind (own_records (run_journal ?r)) =
       [(System, Tool_use ''get_weather''), (Ai, Text ''sunny'')]"
    unfolding example_offline_kinds .
  from th [THEN conjunct2, THEN conjunct2, THEN conjunct1]
  have c: "list_all (\<lambda>m. \<not> delivered m \<and> to m = ''alice'') (own_records (run_journal ?r))"
    unfolding list_all_iff by (rule ball_reg [rotated]) simp
  from a b c show ?thesis
    by (intro conjI)
qed

section \<open>A run that succeeds\<close>

lemma specified_not_complete:
  assumes "s \<noteq> At_finish"
  shows "filter is_complete (specified_effects mid sess ft s p) = []"
proof (cases s)
  case (At_event ev)
  show ?thesis
  proof (cases ev)
    case (Ev_text_delta x)
    with At_event show ?thesis
      by (cases x) (simp_all add: notify_def split: option.splits)
  qed (use At_event in \<open>simp_all add: persist_notify_def split: option.splits\<close>)
qed (use assms in \<open>simp_all add: notify_def split: option.splits\<close>)

lemma journal_not_complete:
  assumes "\<forall>e \<in> set j. step_as_specified mid uid sess ft w_end e"
    and "\<forall>e \<in> set j. fst e \<noteq> At_finish"
  shows "filter is_complete (own_effects j) = []"
  using assms
proof (induction j)
  case Nil
  show ?case by simp
next
  case (Cons x xs)
  obtain s v v' where x: "x = (s, v, v')" by (cases x)
  from Cons.prems have "trace v' = trace v @ specified_effects mid sess ft s (onlineUsers v uid)"
    and "s \<noteq> At_finish"
    by (simp_all add: x step_as_specified_def)
  then have h: "filter is_complete (drop (length (trace v)) (trace v')) = []"
    by (simp add: specified_not_complete)
  from Cons.prems have "filter is_complete (own_effects xs) = []"
    by (intro Cons.IH) simp_all
  with h show ?case
    unfolding x own_effects_simps(2) filter_append by simp
qed

lemma drop_to_last: "length ys = Suc n \<Longrightarrow> drop n ys = [last ys]"
  by (cases ys rule: rev_cases) simp_all

lemma finalize_record:
  "drop (length (stored_messages w)) (stored_messages (snd (finalize st t w))) =
     [\<lparr>id_msg = messageId st, to = inv_userId st, sessionId = inv_sessionId st,
       timestamp = clock w (clock_reads w),
       delivered = present (onlineUsers w (inv_userId st)),
       deliveredAt = (if present (onlineUsers w (inv_userId st))
                      then Some (clock w (Suc (clock_reads w))) else None),
       role = Ai, message = Text (if t \<noteq> [] then t else textSoFar st)\<rparr>]"
proof -
  from finalize_world(1) [of st t w, THEN arg_cong [where f = length]]
  have "length (stored_messages (snd (finalize st t w))) = Suc (length (stored_messages w))"
    by simp
  from drop_to_last [OF this] show ?thesis
    unfolding finalize_world(3) .
qed

text \<open>
  Claim C2. Take any run of \<open>startAIStream\<close> in which \<open>agent.streamText\<close> resolves, the
  feed ends and \<open>response.text\<close> resolves to \<open>finalText\<close>, whatever else runs in the
  process while the run is suspended. Let \<open>mid\<close> be the id the run draws at its start
  (its \<open>ai_started\<close> notification carries it), and \<open>ftxt\<close> the final text, or the
  concatenation of the text deltas of the feed when the final text is empty. The run
  starts, iterates over the feed and ends with its finish step. The steps before the
  finish persist the \<open>system\<close> records of the tool calls and tool results, no other
  record, and emit no \<open>ai_complete\<close>. The finish step appends exactly one record to the
  log: role \<open>ai\<close>, id \<open>mid\<close>, text \<open>ftxt\<close>, for the user and session of the run. Let \<open>v\<close>
  be the state of the process in which the finish step starts. If \<open>onlineUsers\<close> has
  a socket id for the user in \<open>v\<close>, the effects of the finish step are the write of the
  record, one \<open>ai_complete\<close> with \<open>mid\<close>, the session and \<open>ftxt\<close> to that socket, and the
  write that marks the record delivered; the record ends delivered, with \<open>deliveredAt\<close>
  stamped. If it has none, the only effect is the write of the record, which ends
  undelivered.
\<close>

theorem successful_run_persists_final_message:
  assumes "r = startAIStream uid sessId input during
                 (StreamText_resolves evs during1 (Feed_done during2 (Text_resolves finalText))) w"
    and "mid = uuids w (uuid_draws w)"
    and "ftxt = (if finalText \<noteq> [] then finalText else deltas evs)"
  shows "\<exists>w1 j1 v.
      run_journal r = (At_start, w, w1) # j1 @ [(At_finish, v, run_world r)]
      \<and> trace w1 = trace w @ notify (onlineUsers w uid) (Ai_started mid sessId)
      \<and> stored_messages w1 = stored_messages w
      \<and> messageId (run_state r) = mid
      \<and> map kind (own_records j1) = map (Pair System) (tool_bodies evs)
      \<and> filter is_complete (own_effects j1) = []
      \<and> map kind (own_records (run_journal r)) =
          map (Pair System) (tool_bodies evs) @ [(Ai, Text ftxt)]
      \<and> drop (length (stored_messages v)) (stored_messages (run_world r)) =
          [\<lparr>id_msg = mid, to = uid, sessionId = sessId, timestamp = clock v (clock_reads v),
            delivered = present (onlineUsers v uid),
            deliveredAt = (if present (onlineUsers v uid)
                           then Some (clock v (Suc (clock_reads v))) else None),
            role = Ai, message = Text ftxt\<rparr>]
      \<and> drop (length (trace v)) (trace (run_world r)) =
          persist_notify (onlineUsers v uid) (Ai_complete mid sessId ftxt)"
proof -
  let ?resp = "StreamText_resolves evs during1 (Feed_done during2 (Text_resolves finalText))"
  define b where "b = startAIStream_begin uid sessId input w"
  define st0 where "st0 = fst b"
  define c where "c = consume_feed st0 (feed_events ?resp) (interleave during (snd b))"
  have st0: "messageId st0 = mid" "inv_userId st0 = uid"
    "inv_sessionId st0 = sessId" "\<not> done_flag st0" "textSoFar st0 = []"
    by (simp_all add: st0_def b_def assms(2))
  have stc: "messageId (run_state c) = mid" "inv_userId (run_state c) = uid"
    "inv_sessionId (run_state c) = sessId"
    "textSoFar (run_state c) = deltas evs"
    by (simp_all add: c_def consume_feed_state st0)
  from run_shape [OF b_def c_def [unfolded st0_def] assms(1)]
  obtain ds :: "interleaved list" and v where
    sr: "run_state r = fst (finalize (run_state c) finalText v)"
    and wr: "run_world r = snd (finalize (run_state c) finalText v)"
    and jr: "run_journal r = (At_start, w, snd b) # run_journal c @ [(At_finish, v, run_world r)]"
    by auto
  have ft: "(if finalText \<noteq> [] then finalText else textSoFar (run_state c)) = ftxt"
    by (simp add: stc assms(3))
  have t1: "trace (snd b) = trace w @ notify (onlineUsers w uid) (Ai_started mid sessId)"
    by (simp add: b_def notify_def assms(2))
  have s1: "stored_messages (snd b) = stored_messages w"
    by (simp add: b_def)
  have m: "messageId (run_state r) = mid"
    by (simp add: sr finalize_state stc)
  have k1: "map kind (own_records (run_journal c)) = map (Pair System) (tool_bodies evs)"
    unfolding c_def using consume_feed_kinds [of st0 evs] by simp
  have ne: "\<forall>e \<in> set (run_journal c). fst e \<noteq> At_finish"
    using consume_feed_steps [of _ _ _ st0 "feed_events ?resp" "interleave during (snd b)"]
    unfolding c_def by fastforce
  have "\<forall>e \<in> set (run_journal r).
      step_as_specified (uuids w (uuid_draws w)) uid sessId ftxt (run_world r) e"
    by (rule run_entries [OF assms(1)]) (simp add: assms(3))
  then have "\<forall>e \<in> set (run_journal c).
      step_as_specified (uuids w (uuid_draws w)) uid sessId ftxt (run_world r) e"
    unfolding jr by simp
  from journal_not_complete [OF this ne]
  have nc: "filter is_complete (own_effects (run_journal c)) = []" .
  have k: "map kind (own_records (run_journal r)) =
      map (Pair System) (tool_bodies evs) @ [(Ai, Text ftxt)]"
    unfolding assms(1) run_kinds by (simp add: persisted_kinds_def assms(3))
  have fr: "drop (length (stored_messages v)) (stored_messages (run_world r)) =
          [\<lparr>id_msg = mid, to = uid, sessionId = sessId, timestamp = clock v (clock_reads v),
            delivered = present (onlineUsers v uid),
            deliveredAt = (if present (onlineUsers v uid)
                           then Some (clock v (Suc (clock_reads v))) else None),
            role = Ai, message = Text ftxt\<rparr>]"
    unfolding wr finalize_record by (simp add: stc assms(3))
  have fe: "drop (length (trace v)) (trace (run_world r)) =
          persist_notify (onlineUsers v uid) (Ai_complete mid sessId ftxt)"
    unfolding wr finalize_world(2) by (simp add: stc assms(3))
  from jr t1 s1 m k1 nc k fr fe
  have "run_journal r = (At_start, w, snd b) # run_journal c @ [(At_finish, v, run_world r)]
      \<and> trace (snd b) = trace w @ notify (onlineUsers w uid) (Ai_started mid sessId)
      \<and> stored_messages (snd b) = stored_messages w
      \<and> messageId (run_state r) = mid
      \<and> map kind (own_records (run_journal c)) = map (Pair System) (tool_bodies evs)
      \<and> filter is_complete (own_effects (run_journal c)) = []
      \<and> map kind (own_records (run_journal r)) =
          map (Pair System) (tool_bodies evs) @ [(Ai, Text ftxt)]
      \<and> drop (length (stored_messages v)) (stored_messages (run_world r)) =
          [\<lparr>id_msg = mid, to = uid, sessionId = sessId, timestamp = clock v (clock_reads v),
            delivered = present (onlineUsers v uid),
            deliveredAt = (if present (onlineUsers v uid)
                           then Some (clock v (Suc (clock_reads v))) else None),
            role = Ai, message = Text ftxt\<rparr>]
      \<and> drop (length (trace v)) (trace (run_world r)) =
          persist_notify (onlineUsers v uid) (Ai_complete mid sessId ftxt)"
    by (intro conjI)
  then show ?thesis
    by (intro exI)
qed

lemma example_lookups:
  "map (\<lambda>(s, v, v'). (s, onlineUsers v ''alice''))
     (run_journal (startAIStream ''alice'' ''s1'' ''hi'' [] example_response example_log)) =
   [(At_start, None), (At_event (Ev_tool_call ''get_weather''), None),
    (At_event (Ev_text_delta (Some ''sunny'')), None), (At_finish, Some ''sockC'')]"
  by (simp add: startAIStream_def example_response_def Let_def split_def
      on_event_presence finalize_presence register_presence ai_send_presence
      example_log_presence del: on_event.simps)

text \<open>On the example log nobody is online when the example run for \<open>alice\<close> starts.
  The feed yields a tool call and the delta \<open>sunny\<close>, and the final text is empty.
  \<open>alice\<close> registers on \<open>sockC\<close> while the run waits for the final text: the run, which
  found her absent at its start and at both events, sends \<open>ai_complete\<close> with the id
  it drew at its start and the text \<open>sunny\<close> to \<open>sockC\<close>, and its final record is
  delivered.\<close>

theorem successful_run_persists_final_message_witness:
  "\<exists>w1 j1 v.
     run_journal (startAIStream ''alice'' ''s1'' ''hi'' [] example_response example_log) =
       (At_start, example_log, w1) # j1
       @ [(At_finish, v,
           run_world (startAIStream ''alice'' ''s1'' ''hi'' [] example_response example_log))]
     \<and> onlineUsers example_log ''alice'' = None
     \<and> trace w1 = trace example_log
     \<and> onlineUsers v ''alice'' = Some ''sockC''
     \<and> map kind (own_records (run_journal
          (startAIStream ''alice'' ''s1'' ''hi'' [] example_response example_log))) =
         [(System, Tool_use ''get_weather''), (Ai, Text ''sunny'')]
     \<and> (\<exists>t t'. drop (length (stored_messages v)) (stored_messages (run_world
          (startAIStream ''alice'' ''s1'' ''hi'' [] example_response example_log))) =
         [\<lparr>id_msg = ''id'', to = ''alice'', sessionId = ''s1'', timestamp = t,
           delivered = True, deliveredAt = Some t', role = Ai, message = Text ''sunny''\<rparr>])
     \<and> drop (length (trace v)) (trace (run_world
          (startAIStream ''alice'' ''s1'' ''hi'' [] example_response example_log))) =
         [Write_messages, Emit ''sockC'' (Ai_complete ''id'' ''s1'' ''sunny''), Write_messages]"
proof -
  let ?r = "startAIStream ''alice'' ''s1'' ''hi'' [] example_response example_log"
  let ?f = "\<lambda>(s, v, v'). (s, onlineUsers v ''alice'')"
  have mid: "''id'' = uuids example_log (uuid_draws example_log)"
    by (simp add: example_log_def fresh_world_def)
  have ftxt: "''sunny'' = (if ([]::string) \<noteq> [] then []
      else deltas [([], Ev_tool_call ''get_weather''),
        ([On_socket ''sockB'' (Register ''bob''), On_socket ''sockB'' (Ai_send ''s9'' ''yo'')],
         Ev_text_delta (Some ''sunny''))])"
    by (simp add: deltas_def)
  from successful_run_persists_final_message
    [OF refl [of ?r, unfolded example_response_def] mid ftxt, folded example_response_def]
  obtain w1 j1 v where
    j: "run_journal ?r = (At_start, example_log, w1) # j1 @ [(At_finish, v, run_world ?r)]"
    and t: "trace w1 = trace example_log @ notify (onlineUsers example_log ''alice'')
              (Ai_started ''id'' ''s1'')"
    and k: "map kind (own_records (run_journal ?r)) =
          map (Pair System) (tool_bodies [([], Ev_tool_call ''get_weather''),
        ([On_socket ''sockB'' (Register ''bob''), On_socket ''sockB'' (Ai_send ''s9'' ''yo'')],
         Ev_text_delta (Some ''sunny''))]) @ [(Ai, Text ''sunny'')]"
    and fr: "drop (length (stored_messages v)) (stored_messages (run_world ?r)) =
          [\<lparr>id_msg = ''id'', to = ''alice'', sessionId = ''s1'',
            timestamp = clock v (clock_reads v),
            delivered = present (onlineUsers v ''alice''),
            deliveredAt = (if present (onlineUsers v ''alice'')
                           then Some (clock v (Suc (clock_reads v))) else None),
            role = Ai, message = Text ''sunny''\<rparr>]"
    and fe: "drop (length (trace v)) (trace (run_world ?r)) =
          persist_notify (onlineUsers v ''alice'') (Ai_complete ''id'' ''s1'' ''sunny'')"
    by blast
  have off: "onlineUsers example_log ''alice'' = None"
    by (simp add: example_log_presence)
  from arg_cong [OF j, of "\<lambda>j. last (map ?f j)"]
  have on: "onlineUsers v ''alice'' = Some ''sockC''"
    unfolding example_lookups by simp
  have t': "trace w1 = trace example_log"
    using t by (simp add: off notify_def)
  have k': "map kind (own_records (run_journal ?r)) =
         [(System, Tool_use ''get_weather''), (Ai, Text ''sunny'')]"
    using k by (simp add: tool_bodies_def)
  have fr': "\<exists>t t'. drop (length (stored_messages v)) (stored_messages (run_world ?r)) =
         [\<lparr>id_msg = ''id'', to = ''alice'', sessionId = ''s1'', timestamp = t,
           delivered = True, deliveredAt = Some t', role = Ai, message = Text ''sunny''\<rparr>]"
    using fr by (simp add: on present_def)
  have fe': "drop (length (trace v)) (trace (run_world ?r)) =
         [Write_messages, Emit ''sockC'' (Ai_complete ''id'' ''s1'' ''sunny''), Write_messages]"
    using fe by (simp add: on persist_notify_def)
  from j off t' on k' fr' fe'
  have "run_journal ?r = (At_start, example_log, w1) # j1 @ [(At_finish, v, run_world ?r)]
     \<and> onlineUsers example_log ''alice'' = None
     \<and> trace w1 = trace example_log
     \<and> onlineUsers v ''alice'' = Some ''sockC''
     \<and> map kind (own_records (run_journal ?r)) =
         [(System, Tool_use ''get_weather''), (Ai, Text ''sunny'')]
     \<and> (\<exists>t t'. drop (length (stored_messages v)) (stored_messages (run_world ?r)) =
         [\<lparr>id_msg = ''id'', to = ''alice'', sessionId = ''s1'', timestamp = t,
           delivered = True, deliveredAt = Some t', role = Ai, message = Text ''sunny''\<rparr>])
     \<and> drop (length (trace v)) (trace (run_world ?r)) =
         [Write_messages, Emit ''sockC'' (Ai_complete ''id'' ''s1'' ''sunny''), Write_messages]"
    by (intro conjI)
  then show ?thesis
    by (intro exI)
qed

section \<open>A run that fails\<close>

lemma kinds_system:
  "map kind xs = map (Pair System) bs \<Longrightarrow> \<forall>m \<in> set xs. role m = System"
  by (induction xs arbitrary: bs) (auto simp add: kind_def)

text \<open>
  Claim C6. Take any run of \<open>startAIStream\<close> in which \<open>agent.streamText\<close> rejects, the
  feed throws, or \<open>response.text\<close> rejects, whatever else runs in the process while the
  run is suspended. Let \<open>mid\<close> be the id the run draws at its start. The run ends
  with its catch block, with \<open>done\<close> set. The catch block adds exactly one effect,
  the \<open>console.error\<close>: it emits nothing to any socket, and it leaves the log as it
  found it. The run has no finish step, and each of its steps has exactly the effects
  the specification gives that step on success (\<open>started\<close>, \<open>chunk\<close>, and the tool
  notifications with the writes of their records), so that no step emits anything
  about the failure. The records the run's own steps add to the log are the \<open>system\<close>
  records of the tool calls and tool results of the feed and nothing else: no record
  of role \<open>ai\<close>. The log as each step leaves it is still in the log at the end of the
  run, but for \<open>delivered\<close> and \<open>deliveredAt\<close>.
\<close>

theorem failed_run_persists_no_artifact:
  assumes "r = startAIStream uid sessId input during resp w"
    and "final_text resp = None"
    and "mid = uuids w (uuid_draws w)"
  shows "done_flag (run_state r)
     \<and> (\<exists>j0 v. run_journal r = j0 @ [(At_catch, v, run_world r)]
           \<and> trace (run_world r) = trace v @ [Console_error]
           \<and> stored_messages (run_world r) = stored_messages v)
     \<and> (\<forall>(s, v, v') \<in> set (run_journal r).
           s \<noteq> At_finish
           \<and> trace v' = trace v @ specified_effects mid sessId ft s (onlineUsers v uid)
           \<and> log_evolves (stored_messages v') (stored_messages (run_world r)))
     \<and> map kind (own_records (run_journal r)) =
         map (Pair System) (tool_bodies (feed_events resp))
     \<and> (\<forall>m \<in> set (own_records (run_journal r)). role m = System)"
proof -
  define b where "b = startAIStream_begin uid sessId input w"
  define c where "c = consume_feed (fst b) (feed_events resp) (interleave during (snd b))"
  from run_shape [OF b_def c_def assms(1)] assms(2)
  obtain ds :: "interleaved list" and v where
    sr: "run_state r = fst (on_error (run_state c) v)"
    and wr: "run_world r = snd (on_error (run_state c) v)"
    and jr: "run_journal r = (At_start, w, snd b) # run_journal c @ [(At_catch, v, run_world r)]"
    by auto
  have d: "done_flag (run_state r)"
    by (simp add: sr)
  have "run_journal r = ((At_start, w, snd b) # run_journal c) @ [(At_catch, v, run_world r)]
           \<and> trace (run_world r) = trace v @ [Console_error]
           \<and> stored_messages (run_world r) = stored_messages v"
    by (simp add: jr) (simp add: wr)
  then have e: "\<exists>j0 v. run_journal r = j0 @ [(At_catch, v, run_world r)]
           \<and> trace (run_world r) = trace v @ [Console_error]
           \<and> stored_messages (run_world r) = stored_messages v"
    by (intro exI)
  have ne: "\<forall>e \<in> set (run_journal r). fst e \<noteq> At_finish"
    using consume_feed_steps [of _ _ _ "fst b" "feed_events resp" "interleave during (snd b)"]
    unfolding jr c_def by fastforce
  have sp: "\<forall>e \<in> set (run_journal r).
      step_as_specified mid uid sessId ft (run_world r) e"
    unfolding assms(3) by (rule run_entries [OF assms(1)]) (simp add: assms(2))
  have s: "\<forall>(s, v, v') \<in> set (run_journal r).
           s \<noteq> At_finish
           \<and> trace v' = trace v @ specified_effects mid sessId ft s (onlineUsers v uid)
           \<and> log_evolves (stored_messages v') (stored_messages (run_world r))"
  proof (intro ballI)
    fix x assume xin: "x \<in> set (run_journal r)"
    obtain s v v' where x: "x = (s, v, v')" by (cases x)
    from ne xin have "s \<noteq> At_finish"
      unfolding x by fastforce
    moreover from sp xin have "step_as_specified mid uid sessId ft (run_world r) (s, v, v')"
      unfolding x by blast
    ultimately show "case x of (s, v, v') \<Rightarrow>
           s \<noteq> At_finish
           \<and> trace v' = trace v @ specified_effects mid sessId ft s (onlineUsers v uid)
           \<and> log_evolves (stored_messages v') (stored_messages (run_world r))"
      unfolding x by (simp add: step_as_specified_def)
  qed
  have k: "map kind (own_records (run_journal r)) =
         map (Pair System) (tool_bodies (feed_events resp))"
    unfolding assms(1) run_kinds by (simp add: persisted_kinds_def assms(2))
  note ro = kinds_system [OF k]
  from d e s k ro show ?thesis
    by (intro conjI)
qed

text \<open>On the running example server \<open>alice\<close> is online. The feed of the failing
  example run yields one tool call and throws: the run ends in its catch block, whose
  only effect is the \<open>console.error\<close>, and the only record it has persisted is the
  \<open>system\<close> record of the tool call.\<close>

theorem failed_run_persists_no_artifact_witness:
  "done_flag (run_state
      (startAIStream ''alice'' ''s1'' ''hi'' [] example_failing_response example_server))
   \<and> (\<exists>j0 v.
        run_journal
          (startAIStream ''alice'' ''s1'' ''hi'' [] example_failing_response example_server) =
          j0 @ [(At_catch, v, run_world
            (startAIStream ''alice'' ''s1'' ''hi'' [] example_failing_response example_server))]
        \<and> trace (run_world
            (startAIStream ''alice'' ''s1'' ''hi'' [] example_failing_response example_server)) =
            trace v @ [Console_error])
   \<and> map kind (own_records (run_journal
        (startAIStream ''alice'' ''s1'' ''hi'' [] example_failing_response example_server))) =
       [(System, Tool_use ''get_weather'')]
   \<and> list_all (\<lambda>m. role m = System) (own_records (run_journal
        (startAIStream ''alice'' ''s1'' ''hi'' [] example_failing_response example_server)))"
proof -
  let ?r = "startAIStream ''alice'' ''s1'' ''hi'' [] example_failing_response example_server"
  have n: "final_text example_failing_response = None"
    by (simp add: example_failing_response_def)
  note th = failed_run_persists_no_artifact [OF refl n refl, where uid = "''alice''"
      and sessId = "''s1''" and input = "''hi''" and during = "[]" and w = example_server]
  from th [THEN conjunct1] have a: "done_flag (run_state ?r)" .
  from th [THEN conjunct2, THEN conjunct1]
  obtain j0 v where "run_journal ?r = j0 @ [(At_catch, v, run_world ?r)]"
    and "trace (run_world ?r) = trace v @ [Console_error]"
    by blast
  then have "run_journal ?r = j0 @ [(At_catch, v, run_world ?r)]
           \<and> trace (run_world ?r) = trace v @ [Console_error]"
    by (intro conjI)
  then have b: "\<exists>j0 v. run_journal ?r = j0 @ [(At_catch, v, run_world ?r)]
           \<and> trace (run_world ?r) = trace v @ [Console_error]"
    by (intro exI)
  from th [THEN conjunct2, THEN conjunct2, THEN conjunct2, THEN conjunct1]
  have c: "map kind (own_records (run_journal ?r)) = [(System, Tool_use ''get_weather'')]"
    by (simp add: example_failing_response_def tool_bodies_def)
  from th [THEN conjunct2, THEN conjunct2, THEN conjunct2, THEN conjunct2]
  have d: "list_all (\<lambda>m. role m = System) (own_records (run_journal ?r))"
    unfolding list_all_iff .
  from a b c d show ?thesis
    by (intro conjI)
qed

end
